theory Spec2Isabelle
  imports Main "HOL-Library.Char_ord" "HOL-Library.List_Lexorder"
begin

section \<open>Values decoded from YAML\<close>

text \<open>
  The Go type \<^verbatim>\<open>any\<close> as the YAML decoder fills it: the nil interface, a string, an
  integer, a boolean, a \<^verbatim>\<open>[]any\<close>, a \<^verbatim>\<open>map[string]any\<close>, or a value of some other
  dynamic type (a float, a map with non-string keys, a timestamp), which the program
  never inspects.

  A Go map is an association list with distinct keys. The order of the list is the order
  in which a \<^verbatim>\<open>range\<close> over the map visits the keys; the Go runtime may choose a
  different order at every loop, so nothing may depend on it.
\<close>

datatype any =
    ANil
  | AString string
  | AInt int
  | ABool bool
  | ASlice "any list"
  | AMap "(string \<times> any) list"
  | AOther nat

type_synonym 'v gomap = "(string \<times> 'v) list"

text \<open>\<^verbatim>\<open>m[k]\<close> on a \<^verbatim>\<open>map[string]any\<close>: the nil interface when the key is absent.\<close>

definition index :: "any gomap \<Rightarrow> string \<Rightarrow> any" where
  "index m k = (case map_of m k of Some v \<Rightarrow> v | None \<Rightarrow> ANil)"

text \<open>\<^verbatim>\<open>maps.Keys(m)\<close>, in iteration order, and \<^verbatim>\<open>slices.Sorted(maps.Keys(m))\<close>.
  Go compares strings bytewise, which is the lexicographic order on \<^typ>\<open>char list\<close>.\<close>

definition keys :: "'v gomap \<Rightarrow> string list" where
  "keys m = remdups (map fst m)"

definition sortedKeys :: "'v gomap \<Rightarrow> string list" where
  "sortedKeys m = sort (keys m)"

section \<open>Failures\<close>

text \<open>
  Every way the program stops without returning: the two \<^verbatim>\<open>log.Fatal\<close> calls, the
  explicit \<^verbatim>\<open>panic("")\<close> of the type switches, a failed type assertion
  \<^verbatim>\<open>x.(T)\<close>, and an assignment to an entry of a nil map.
\<close>

datatype error =
    FatalVersion
  | FatalCmdAndCmds
  | PanicShape
  | PanicTypeAssertion
  | PanicNilMap

fun mapE :: "('a \<Rightarrow> error + 'b) \<Rightarrow> 'a list \<Rightarrow> error + 'b list" where
  "mapE f [] = Inr []"
| "mapE f (x # xs) =
     (case f x of
        Inl e \<Rightarrow> Inl e
      | Inr y \<Rightarrow> (case mapE f xs of Inl e \<Rightarrow> Inl e | Inr ys \<Rightarrow> Inr (y # ys)))"

fun foldE :: "('a \<Rightarrow> 's \<Rightarrow> error + 's) \<Rightarrow> 'a list \<Rightarrow> 's \<Rightarrow> error + 's" where
  "foldE f [] s = Inr s"
| "foldE f (x # xs) s = (case f x s of Inl e \<Rightarrow> Inl e | Inr s' \<Rightarrow> foldE f xs s')"

section \<open>The document model\<close>

record Task =
  Desc :: string
  Summary :: string
  Silent :: bool
  Internal :: bool
  Requires_Vars :: "any list"
  Vars :: "any gomap"
  Deps :: "any list"
  Cmd :: any
  Cmds :: "any list option"

text \<open>\<^verbatim>\<open>Cmds\<close> is a slice compared with nil: \<open>None\<close> is the nil slice (the key is
  absent), \<open>Some []\<close> an empty one.\<close>

record Taskfile =
  Includes :: "any gomap"
  Version :: string
  TaskfileVars :: "any gomap"
  Tasks :: "Task gomap"

record Variable =
  Name :: string
  Value :: any

record TaskCall =
  TaskName :: string
  CallVars :: "Variable list"

record RequiredVariable =
  RequiredName :: string
  Enum :: "string list"

text \<open>The zero value of \<^verbatim>\<open>Task\<close>, which \<^verbatim>\<open>taskfile.Tasks[name]\<close> gives for an absent key.\<close>

definition zeroTask :: Task where
  "zeroTask = \<lparr>Desc = [], Summary = [], Silent = False, Internal = False,
     Requires_Vars = [], Vars = [], Deps = [], Cmd = ANil, Cmds = None\<rparr>"

definition GetIncludes :: "Taskfile \<Rightarrow> string list" where
  "GetIncludes tf = keys (Includes tf)"

text \<open>The block shared by \<^verbatim>\<open>GetDepCalls\<close> and \<^verbatim>\<open>GetCalls\<close>: the operand of
  \<^verbatim>\<open>.(map[string]any)\<close> with the comma-ok form, then the bindings in sorted key order.\<close>

fun passedVars :: "any \<Rightarrow> Variable list" where
  "passedVars (AMap pv) = map (\<lambda>n. \<lparr>Name = n, Value = index pv n\<rparr>) (sortedKeys pv)"
| "passedVars _ = []"

fun depCallOf :: "any \<Rightarrow> error + TaskCall" where
  "depCallOf (AString dep) = Inr \<lparr>TaskName = dep, CallVars = []\<rparr>"
| "depCallOf (AMap dep) =
     (case index dep ''task'' of
        AString n \<Rightarrow> Inr \<lparr>TaskName = n, CallVars = passedVars (index dep ''vars'')\<rparr>
      | _ \<Rightarrow> Inl PanicTypeAssertion)"
| "depCallOf _ = Inl PanicShape"

definition GetDepCalls :: "Task \<Rightarrow> error + TaskCall list" where
  "GetDepCalls t = mapE depCallOf (Deps t)"

definition GetCmds :: "Task \<Rightarrow> error + any list" where
  "GetCmds t =
     (if Cmd t \<noteq> ANil \<and> Cmds t \<noteq> None then Inl FatalCmdAndCmds
      else if Cmd t = ANil then Inr (case Cmds t of None \<Rightarrow> [] | Some cs \<Rightarrow> cs)
      else Inr [Cmd t])"

fun cmdCallOf :: "any \<Rightarrow> TaskCall option" where
  "cmdCallOf (AMap typedCmd) =
     (case index typedCmd ''task'' of
        AString n \<Rightarrow> Some \<lparr>TaskName = n, CallVars = passedVars (index typedCmd ''vars'')\<rparr>
      | _ \<Rightarrow> None)"
| "cmdCallOf _ = None"

definition GetCalls :: "Task \<Rightarrow> error + TaskCall list" where
  "GetCalls t =
     (case GetCmds t of Inl e \<Rightarrow> Inl e | Inr cmds \<Rightarrow> Inr (List.map_filter cmdCallOf cmds))"

fun enumString :: "any \<Rightarrow> error + string" where
  "enumString (AString s) = Inr s"
| "enumString _ = Inl PanicTypeAssertion"

fun requiredVarOf :: "any \<Rightarrow> error + RequiredVariable" where
  "requiredVarOf (AString v) = Inr \<lparr>RequiredName = v, Enum = []\<rparr>"
| "requiredVarOf (AMap v) =
     (case index v ''name'' of
        AString n \<Rightarrow>
          (case index v ''enum'' of
             ASlice es \<Rightarrow>
               (case mapE enumString es of
                  Inl e \<Rightarrow> Inl e
                | Inr ss \<Rightarrow> Inr \<lparr>RequiredName = n, Enum = ss\<rparr>)
           | _ \<Rightarrow> Inl PanicTypeAssertion)
      | _ \<Rightarrow> Inl PanicTypeAssertion)"
| "requiredVarOf _ = Inl PanicShape"

definition GetRequiredVars :: "Task \<Rightarrow> error + RequiredVariable list" where
  "GetRequiredVars t = mapE requiredVarOf (Requires_Vars t)"

section \<open>The statement writer\<close>

text \<open>
  The state of one process: the statements of the writer of the current run
  (\<^verbatim>\<open>d2Writer.data\<close>), the package-level variable \<^verbatim>\<open>includesToIncludedTasks\<close>, and the
  number of identifiers drawn from the identifier library so far. The inner maps of
  \<^verbatim>\<open>includesToIncludedTasks\<close> only ever hold keys, so each is a set; an absent
  namespace reads as the nil map.
\<close>

record state =
  data :: "string list"
  includesToIncludedTasks :: "string \<rightharpoonup> string set"
  uuids :: nat

text \<open>
  What the program takes from libraries outside the repository: \<open>NewString X k\<close> is the
  identifier that the \<open>k\<close>-th call of \<^verbatim>\<open>uuid.NewString()\<close> in this process returns, and
  \<open>GoSyntax X v\<close> is \<^verbatim>\<open>fmt.Sprintf("%#v", v)\<close>.
\<close>

record ext =
  NewString :: "nat \<Rightarrow> string"
  GoSyntax :: "any \<Rightarrow> string"

definition Write :: "string \<Rightarrow> string list \<Rightarrow> state \<Rightarrow> state" where
  "Write key values s =
     (if values = [] then s\<lparr>data := data s @ [key]\<rparr>
      else s\<lparr>data := data s @ map (\<lambda>v. key @ '': '' @ v) values\<rparr>)"

fun Join :: "string list \<Rightarrow> string \<Rightarrow> string" where
  "Join [] sep = []"
| "Join [x] sep = x"
| "Join (x # y # ys) sep = x @ sep @ Join (y # ys) sep"

definition String :: "state \<Rightarrow> string" where
  "String s = Join (data s) ''\<newline>''"

section \<open>String helpers of the standard library\<close>

text \<open>\<^verbatim>\<open>strings.ReplaceAll(s, old, new)\<close> for a one-character \<open>old\<close>, and the
  \<^verbatim>\<open>strings.NewReplacer\<close> of one-character olds, which rewrites character by character.\<close>

definition ReplaceAll :: "string \<Rightarrow> char \<Rightarrow> string \<Rightarrow> string" where
  "ReplaceAll s old new = concat (map (\<lambda>c. if c = old then new else [c]) s)"

definition Replace :: "(char \<times> string) list \<Rightarrow> string \<Rightarrow> string" where
  "Replace oldnew s = concat (map (\<lambda>c. case map_of oldnew c of Some n \<Rightarrow> n | None \<Rightarrow> [c]) s)"

definition escapes :: "(char \<times> string) list" where
  \<open>escapes = [(CHR 0x27, [CHR 0x5C, CHR 0x27]), (CHR 0x22, [CHR 0x5C, CHR 0x22]),
     (CHR ''{'', [CHR 0x5C, CHR ''{'']), (CHR ''}'', [CHR 0x5C, CHR ''}''])]\<close>

text \<open>\<^verbatim>\<open>fmt.Sprintf("'%s'", s)\<close>, the quoting of a name in the output.\<close>

definition quote :: "string \<Rightarrow> string" where
  "quote s = [CHR 0x27] @ s @ [CHR 0x27]"

text \<open>\<^verbatim>\<open>strings.SplitN(s, ":", 2)\<close> on a string that contains the separator.\<close>

definition SplitN2 :: "string \<Rightarrow> string \<times> string" where
  "SplitN2 s = (takeWhile (\<lambda>c. c \<noteq> CHR '':'') s, tl (dropWhile (\<lambda>c. c \<noteq> CHR '':'') s))"

text \<open>\<^verbatim>\<open>%v\<close> of an unsigned integer: its decimal digits.\<close>

function decimal :: "nat \<Rightarrow> string" where
  "decimal n =
     (if n < 10 then [''0123456789'' ! n] else decimal (n div 10) @ [''0123456789'' ! (n mod 10)])"
  by pat_completeness auto
termination
  by (relation "measure id") auto

declare decimal.simps [simp del]

section \<open>Call emission\<close>

definition externalTaskIconName :: string where "externalTaskIconName = ''externalTaskIcon''"
definition internalTaskIconName :: string where "internalTaskIconName = ''internalTaskIcon''"
definition unknownTaskIconName :: string where "unknownTaskIconName = ''unknownTaskIcon''"
definition varIconName :: string where "varIconName = ''varIcon''"
definition includedTaskfileIconName :: string where
  "includedTaskfileIconName = ''includedTaskfileIcon''"

text \<open>The name of the called task in the output: a colon, the separator of an include's
  namespace, becomes the dot between two quoted names, so that the task is addressed
  inside the container of its include.\<close>

definition calledD2TaskName :: "string \<Rightarrow> string" where
  "calledD2TaskName n = ReplaceAll n (CHR '':'') [CHR 0x27, CHR ''.'', CHR 0x27]"

text \<open>The statements of one passed variable, inside the container \<open>c\<close>.\<close>

definition passedVar :: "ext \<Rightarrow> string \<Rightarrow> state \<Rightarrow> Variable \<Rightarrow> state" where
  \<open>passedVar X c s v =
     (let escaped = Replace escapes (GoSyntax X (Value v));
          s = Write (c @ ''.'' @ quote (Name v))
                [''{shape: image; icon: ${'' @ varIconName @ ''}}''] s;
          valueUuid = NewString X (uuids s);
          s = s\<lparr>uuids := Suc (uuids s)\<rparr>;
          s = Write (c @ ''.'' @ valueUuid) [escaped @ '' {shape: text}''] s
      in Write (c @ ''.'' @ quote (Name v) @ '' -> '' @ c @ ''.'' @ valueUuid) [''set to''] s)\<close>

text \<open>The first half of \<^verbatim>\<open>EncapsulatePassedVars\<close>: the edge, or the container with its
  two edges and its variables.\<close>

definition connect :: "ext \<Rightarrow> string \<Rightarrow> TaskCall \<Rightarrow> string \<Rightarrow> string \<Rightarrow> state \<Rightarrow> state" where
  \<open>connect X taskName taskCall firstConnectionValue secondConnectionValue s =
     (let called = calledD2TaskName (TaskName taskCall) in
      if length (CallVars taskCall) = 0 then
        Write (quote taskName @ '' -> '' @ quote called)
          [firstConnectionValue] s
      else
        let c = NewString X (uuids s);
            s = s\<lparr>uuids := Suc (uuids s)\<rparr>;
            s = Write (quote taskName @ '' -> '' @ c) [firstConnectionValue] s;
            s = Write (c @ '' -> '' @ quote called) [secondConnectionValue] s;
            s = Write c [''With {shape: parallelogram; style.stroke-dash: 3}''] s
        in foldl (passedVar X c) s (CallVars taskCall))\<close>

text \<open>
  \<^verbatim>\<open>EncapsulatePassedVars\<close>. For a target with a namespace, the inner map of the namespace
  is read from the package-level map: for a namespace without entry this is the nil map,
  in which the lookup of the task finds nothing and the assignment that follows panics.
  An inner map that is there is shared, so the assignment is seen by every later call.
\<close>

definition EncapsulatePassedVars ::
  "ext \<Rightarrow> string \<Rightarrow> Taskfile \<Rightarrow> TaskCall \<Rightarrow> string \<Rightarrow> string \<Rightarrow> state \<Rightarrow> error + state" where
  \<open>EncapsulatePassedVars X taskName taskfile taskCall firstConnectionValue
       secondConnectionValue s0 =
     (let called = calledD2TaskName (TaskName taskCall);
          s = connect X taskName taskCall firstConnectionValue secondConnectionValue s0
      in if CHR '':'' \<in> set (TaskName taskCall) then
           (let taskNameChunks = SplitN2 (TaskName taskCall) in
            case includesToIncludedTasks s (fst taskNameChunks) of
              None \<Rightarrow> Inl PanicNilMap
            | Some includedTasks \<Rightarrow>
                if snd taskNameChunks \<notin> includedTasks then
                  Inr (Write (quote called @ ''.icon'')
                         [''${'' @ unknownTaskIconName @ ''}'']
                         (s\<lparr>includesToIncludedTasks := (includesToIncludedTasks s)
                              (fst taskNameChunks \<mapsto> insert (snd taskNameChunks) includedTasks)\<rparr>))
                else Inr s)
         else if map_of (Tasks taskfile) called = None then
           Inr (Write (quote called @ ''.icon'')
                  [''${'' @ unknownTaskIconName @ ''}''] s)
         else Inr s)\<close>

section \<open>The translation\<close>

text \<open>The five embedded images.\<close>

definition externalTaskIconData :: string where
  \<open>externalTaskIconData = ''data:image/svg+xml,%3C%3Fxml version=\'1.0\' encoding=\'utf-8\'%3F%3E%3Csvg fill=\'%23000000\' width=\'800px\' height=\'800px\' viewBox=\'0 0 24 24\' xmlns=\'http://www.w3.org/2000/svg\'%3E%3Cpath d=\'M5 22h14c1.103 0 2-.897 2-2V5c0-1.103-.897-2-2-2h-2a1 1 0 0 0-1-1H8a1 1 0 0 0-1 1H5c-1.103 0-2 .897-2 2v15c0 1.103.897 2 2 2zM5 5h2v2h10V5h2v15H5V5z\'/%3E%3Cpath d=\'m11 13.586-1.793-1.793-1.414 1.414L11 16.414l5.207-5.207-1.414-1.414z\'/%3E%3C/svg%3E''\<close>

definition internalTaskIconData :: string where
  \<open>internalTaskIconData = ''data:image/svg+xml,%3C%3Fxml version=\'1.0\' encoding=\'utf-8\'%3F%3E%3Csvg fill=\'%23000000\' width=\'800px\' height=\'800px\' viewBox=\'0 0 24 24\' xmlns=\'http://www.w3.org/2000/svg\'%3E%3Cpath d=\'M3 20c0 1.103.897 2 2 2h14c1.103 0 2-.897 2-2V5c0-1.103-.897-2-2-2h-2a1 1 0 0 0-1-1H8a1 1 0 0 0-1 1H5c-1.103 0-2 .897-2 2v15zM5 5h2v2h10V5h2v15H5V5z\'/%3E%3Cpath d=\'M14.292 10.295 12 12.587l-2.292-2.292-1.414 1.414 2.292 2.292-2.292 2.292 1.414 1.414L12 15.415l2.292 2.292 1.414-1.414-2.292-2.292 2.292-2.292z\'/%3E%3C/svg%3E''\<close>

definition unknownTaskIconData :: string where
  \<open>unknownTaskIconData = ''data:image/svg+xml,%3C%3Fxml version=\'1.0\' encoding=\'utf-8\'%3F%3E%3Csvg width=\'800px\' height=\'800px\' viewBox=\'0 0 24 24\' fill=\'none\' xmlns=\'http://www.w3.org/2000/svg\'%3E%3Cpath fill-rule=\'evenodd\' clip-rule=\'evenodd\' d=\'M9.29289 1.29289C9.48043 1.10536 9.73478 1 10 1H18C19.6569 1 21 2.34315 21 4V7C21 7.55228 20.5523 8 20 8C19.4477 8 19 7.55228 19 7V4C19 3.44772 18.5523 3 18 3H11V8C11 8.55228 10.5523 9 10 9H5V20C5 20.5523 5.44772 21 6 21H11C11.5523 21 12 21.4477 12 22C12 22.5523 11.5523 23 11 23H6C4.34315 23 3 21.6569 3 20V8C3 7.73478 3.10536 7.48043 3.29289 7.29289L9.29289 1.29289ZM6.41421 7H9V4.41421L6.41421 7ZM18.25 20.75C18.25 21.4404 17.6904 22 17 22C16.3096 22 15.75 21.4404 15.75 20.75C15.75 20.0596 16.3096 19.5 17 19.5C17.6904 19.5 18.25 20.0596 18.25 20.75ZM15.1353 12.9643C15.3999 12.4596 16.0831 12 17 12C18.283 12 19 12.8345 19 13.5C19 14.1655 18.283 15 17 15C16.4477 15 16 15.4477 16 16V17C16 17.5523 16.4477 18 17 18C17.5523 18 18 17.5523 18 17V16.8866C19.6316 16.5135 21 15.2471 21 13.5C21 11.404 19.0307 10 17 10C15.4566 10 14.0252 10.7745 13.364 12.0357C13.1075 12.5248 13.2962 13.1292 13.7853 13.3857C14.2744 13.6421 14.8788 13.4535 15.1353 12.9643Z\' fill=\'%23000000\'/%3E%3C/svg%3E''\<close>

definition varIconData :: string where
  \<open>varIconData = ''data:image/svg+xml,%3C%3Fxml%20version%3D%221.0%22%20encoding%3D%22iso-8859-1%22%3F%3E%0A%0A%3Csvg%20version%3D%221.1%22%20id%3D%22Capa_1%22%20xmlns%3D%22http%3A%2F%2Fwww.w3.org%2F2000%2Fsvg%22%20xmlns%3Axlink%3D%22http%3A%2F%2Fwww.w3.org%2F1999%2Fxlink%22%20x%3D%220px%22%20y%3D%220px%22%0A%09%20viewBox%3D%220%200%20512%20512%22%20style%3D%22enable-background%3Anew%200%200%20512%20512%3B%22%20xml%3Aspace%3D%22preserve%22%3E%0A%3Cpath%20style%3D%22fill%3A%23ECECF1%3B%22%20d%3D%22M421%2C0H91C49.6%2C0%2C16%2C33.6%2C16%2C75v362c0%2C41.4%2C33.6%2C75%2C75%2C75h330c41.4%2C0%2C75-33.6%2C75-75V75%0A%09C496%2C33.6%2C462.4%2C0%2C421%2C0z%22%2F%3E%0A%3Cpath%20style%3D%22fill%3A%23E2E2E7%3B%22%20d%3D%22M496%2C75v362c0%2C41.4-33.6%2C75-75%2C75H256V0h165C462.4%2C0%2C496%2C33.6%2C496%2C75z%22%2F%3E%0A%3Cpath%20style%3D%22fill%3A%235A5A5A%3B%22%20d%3D%22M136%2C75v362c0%2C8.401-6.599%2C15-15%2C15s-15-6.599-15-15V75c0-8.401%2C6.599-15%2C15-15S136%2C66.599%2C136%2C75z%22%0A%09%2F%3E%0A%3Cpath%20style%3D%22fill%3A%23444444%3B%22%20d%3D%22M136%2C75v362c0%2C8.401-6.599%2C15-15%2C15V60C129.401%2C60%2C136%2C66.599%2C136%2C75z%22%2F%3E%0A%3Cpath%20style%3D%22fill%3A%235A5A5A%3B%22%20d%3D%22M226%2C75v362c0%2C8.401-6.599%2C15-15%2C15s-15-6.599-15-15V75c0-8.401%2C6.599-15%2C15-15S226%2C66.599%2C226%2C75z%22%0A%09%2F%3E%0A%3Cpath%20style%3D%22fill%3A%23444444%3B%22%20d%3D%22M226%2C75v362c0%2C8.401-6.599%2C15-15%2C15V60C219.401%2C60%2C226%2C66.599%2C226%2C75z%22%2F%3E%0A%3Cpath%20style%3D%22fill%3A%235A5A5A%3B%22%20d%3D%22M316%2C75v362c0%2C8.401-6.599%2C15-15%2C15s-15-6.599-15-15V75c0-8.401%2C6.599-15%2C15-15S316%2C66.599%2C316%2C75z%22%0A%09%2F%3E%0A%3Cpath%20style%3D%22fill%3A%23444444%3B%22%20d%3D%22M316%2C75v362c0%2C8.401-6.599%2C15-15%2C15V60C309.401%2C60%2C316%2C66.599%2C316%2C75z%22%2F%3E%0A%3Cpath%20style%3D%22fill%3A%235A5A5A%3B%22%20d%3D%22M406%2C75v362c0%2C8.401-6.599%2C15-15%2C15s-15-6.599-15-15V75c0-8.401%2C6.599-15%2C15-15S406%2C66.599%2C406%2C75z%22%0A%09%2F%3E%0A%3Cpath%20style%3D%22fill%3A%23444444%3B%22%20d%3D%22M406%2C75v362c0%2C8.401-6.599%2C15-15%2C15V60C399.401%2C60%2C406%2C66.599%2C406%2C75z%22%2F%3E%0A%3Cpath%20style%3D%22fill%3A%23FF7816%3B%22%20d%3D%22M121%2C241c-24.901%2C0-45%2C21.099-45%2C46s20.099%2C45%2C45%2C45s45-20.099%2C45-45S145.901%2C241%2C121%2C241z%22%2F%3E%0A%3Cpath%20style%3D%22fill%3A%23FF4B00%3B%22%20d%3D%22M166%2C287c0%2C24.901-20.099%2C45-45%2C45v-91C145.901%2C241%2C166%2C262.099%2C166%2C287z%22%2F%3E%0A%3Cpath%20style%3D%22fill%3A%23FF7816%3B%22%20d%3D%22M391%2C90c-24.901%2C0-45%2C20.099-45%2C45s20.099%2C45%2C45%2C45s45-20.099%2C45-45S415.901%2C90%2C391%2C90z%22%2F%3E%0A%3Cpath%20style%3D%22fill%3A%23FF4B00%3B%22%20d%3D%22M436%2C135c0%2C24.901-20.099%2C45-45%2C45V90C415.901%2C90%2C436%2C110.099%2C436%2C135z%22%2F%3E%0A%3Cpath%20style%3D%22fill%3A%23FF7816%3B%22%20d%3D%22M301%2C332c-24.901%2C0-45%2C20.099-45%2C45s20.099%2C45%2C45%2C45s45-20.099%2C45-45S325.901%2C332%2C301%2C332z%22%2F%3E%0A%3Cpath%20style%3D%22fill%3A%23FF4B00%3B%22%20d%3D%22M346%2C377c0%2C24.901-20.099%2C45-45%2C45v-90C325.901%2C332%2C346%2C352.099%2C346%2C377z%22%2F%3E%0A%3Cpath%20style%3D%22fill%3A%23FF7816%3B%22%20d%3D%22M211%2C120c-24.901%2C0-45%2C20.099-45%2C45s20.099%2C45%2C45%2C45s45-20.099%2C45-45S235.901%2C120%2C211%2C120z%22%2F%3E%0A%3Cpath%20style%3D%22fill%3A%23FF4B00%3B%22%20d%3D%22M256%2C165c0%2C24.901-20.099%2C45-45%2C45v-90C235.901%2C120%2C256%2C140.099%2C256%2C165z%22%2F%3E%0A%3Cg%3E%0A%3C%2Fg%3E%0A%3Cg%3E%0A%3C%2Fg%3E%0A%3Cg%3E%0A%3C%2Fg%3E%0A%3Cg%3E%0A%3C%2Fg%3E%0A%3Cg%3E%0A%3C%2Fg%3E%0A%3Cg%3E%0A%3C%2Fg%3E%0A%3Cg%3E%0A%3C%2Fg%3E%0A%3Cg%3E%0A%3C%2Fg%3E%0A%3Cg%3E%0A%3C%2Fg%3E%0A%3Cg%3E%0A%3C%2Fg%3E%0A%3Cg%3E%0A%3C%2Fg%3E%0A%3Cg%3E%0A%3C%2Fg%3E%0A%3Cg%3E%0A%3C%2Fg%3E%0A%3Cg%3E%0A%3C%2Fg%3E%0A%3Cg%3E%0A%3C%2Fg%3E%0A%3C%2Fsvg%3E%0A''\<close>

definition includedTaskfileIconData :: string where
  \<open>includedTaskfileIconData = ''data:image/svg+xml,%3C%3Fxml version=\'1.0\' encoding=\'utf-8\'%3F%3E%3Csvg width=\'800px\' height=\'800px\' viewBox=\'0 0 24 24\' fill=\'none\' xmlns=\'http://www.w3.org/2000/svg\'%3E%3Cpath d=\'M3 5.25C3 4.00736 4.00736 3 5.25 3H18.75C19.9926 3 21 4.00736 21 5.25V12.0218C20.5368 11.7253 20.0335 11.4858 19.5 11.3135V5.25C19.5 4.83579 19.1642 4.5 18.75 4.5H5.25C4.83579 4.5 4.5 4.83579 4.5 5.25V18.75C4.5 19.1642 4.83579 19.5 5.25 19.5H11.3135C11.4858 20.0335 11.7253 20.5368 12.0218 21H5.25C4.00736 21 3 19.9926 3 18.75V5.25Z\' fill=\'%23212121\'/%3E%3Cpath d=\'M10.7803 7.71967C11.0732 8.01256 11.0732 8.48744 10.7803 8.78033L8.78033 10.7803C8.48744 11.0732 8.01256 11.0732 7.71967 10.7803L6.71967 9.78033C6.42678 9.48744 6.42678 9.01256 6.71967 8.71967C7.01256 8.42678 7.48744 8.42678 7.78033 8.71967L8.25 9.18934L9.71967 7.71967C10.0126 7.42678 10.4874 7.42678 10.7803 7.71967Z\' fill=\'%23212121\'/%3E%3Cpath d=\'M10.7803 13.2197C11.0732 13.5126 11.0732 13.9874 10.7803 14.2803L8.78033 16.2803C8.48744 16.5732 8.01256 16.5732 7.71967 16.2803L6.71967 15.2803C6.42678 14.9874 6.42678 14.5126 6.71967 14.2197C7.01256 13.9268 7.48744 13.9268 7.78033 14.2197L8.25 14.6893L9.71967 13.2197C10.0126 12.9268 10.4874 12.9268 10.7803 13.2197Z\' fill=\'%23212121\'/%3E%3Cpath d=\'M17.5 12C20.5376 12 23 14.4624 23 17.5C23 20.5376 20.5376 23 17.5 23C14.4624 23 12 20.5376 12 17.5C12 14.4624 14.4624 12 17.5 12ZM18.0011 20.5035L18.0006 18H20.503C20.7792 18 21.003 17.7762 21.003 17.5C21.003 17.2239 20.7792 17 20.503 17H18.0005L18 14.4993C18 14.2231 17.7761 13.9993 17.5 13.9993C17.2239 13.9993 17 14.2231 17 14.4993L17.0005 17H14.4961C14.22 17 13.9961 17.2239 13.9961 17.5C13.9961 17.7762 14.22 18 14.4961 18H17.0006L17.0011 20.5035C17.0011 20.7797 17.225 21.0035 17.5011 21.0035C17.7773 21.0035 18.0011 20.7797 18.0011 20.5035Z\' fill=\'%23212121\'/%3E%3Cpath d=\'M13.25 8.5C12.8358 8.5 12.5 8.83579 12.5 9.25C12.5 9.66421 12.8358 10 13.25 10H16.75C17.1642 10 17.5 9.66421 17.5 9.25C17.5 8.83579 17.1642 8.5 16.75 8.5H13.25Z\' fill=\'%23212121\'/%3E%3C/svg%3E''\<close>

definition d2Vars :: string where
  \<open>d2Vars =
     ''{\<newline>  '' @ externalTaskIconName @ '': '' @ externalTaskIconData @
     ''\<newline>  '' @ internalTaskIconName @ '': '' @ internalTaskIconData @
     ''\<newline>  '' @ unknownTaskIconName @ '': '' @ unknownTaskIconData @
     ''\<newline>  '' @ varIconName @ '': '' @ varIconData @
     ''\<newline>  '' @ includedTaskfileIconName @ '': '' @ includedTaskfileIconData @
     ''\<newline>}''\<close>

definition legend :: string where
  \<open>legend =
     ''Legend {\<newline>'' @
     ''  **.style: {\<newline>'' @
     ''    font-size: 30\<newline>'' @
     ''    bold: true\<newline>'' @
     ''  }\<newline>'' @
     ''  near: top-center\<newline>'' @
     ''  style.3d: true\<newline>'' @
     ''  subLegend1: "" {\<newline>'' @
     ''    style.opacity: 0\<newline>'' @
     ''    grid-columns: 4\<newline>'' @
     ''    grid-rows: 2\<newline>'' @
     ''    icon1: Variable {\<newline>'' @
     ''      shape: image\<newline>'' @
     ''      icon: ${'' @
     varIconName @
     ''}\<newline>'' @
     ''    }\<newline>'' @
     ''    icon1Description: |md\<newline>'' @
     ''      Variables are passed to tasks\<newline>'' @
     ''    |\<newline>'' @
     ''    icon2: External Task {\<newline>'' @
     ''      shape: image\<newline>'' @
     ''      icon: ${'' @
     externalTaskIconName @
     ''}\<newline>'' @
     ''    }\<newline>'' @
     ''    icon2Description: |md\<newline>'' @
     ''      Tasks that can be called'' @ [CHR 0x5C] @ ''\<newline>'' @
     ''      directly by the Task CLI tool.\<newline>'' @
     ''    |\<newline>'' @
     ''    icon3: Internal Task {\<newline>'' @
     ''      shape: image\<newline>'' @
     ''      icon: ${'' @
     internalTaskIconName @
     ''}\<newline>'' @
     ''    }\<newline>'' @
     ''    icon3Description: |md\<newline>'' @
     ''      Tasks that can NOT be called'' @ [CHR 0x5C] @ ''\<newline>'' @
     ''      directly by the Task CLI tool.\<newline>'' @
     ''    |\<newline>'' @
     ''    icon4: Unknown Task {\<newline>'' @
     ''      shape: image\<newline>'' @
     ''      icon: ${'' @
     unknownTaskIconName @
     ''}\<newline>'' @
     ''    }\<newline>'' @
     ''    icon4Description: |md\<newline>'' @
     ''      It is not possible to identify the origin of these'' @ [CHR 0x5C] @ ''\<newline>'' @
     ''      tasks as they are\<newline>'' @
     ''      - a dynamically named task using template variable(s)'' @ [CHR 0x5C] @ ''\<newline>'' @
     ''        **or**\<newline>'' @
     ''      - a task in another imported Taskfile\<newline>'' @
     ''    |\<newline>'' @
     ''    icon5: Included Taskfile {\<newline>'' @
     ''      shape: image\<newline>'' @
     ''      icon: ${'' @
     includedTaskfileIconName @
     ''}\<newline>'' @
     ''    }\<newline>'' @
     ''    icon5Description: |md\<newline>'' @
     ''      Container for tasks that are included from other Taskfiles\<newline>'' @
     ''    |\<newline>'' @
     ''  }\<newline>'' @
     ''  subLegend2: Silent Task {\<newline>'' @
     ''    style: {\<newline>'' @
     ''      fill: grey\<newline>'' @
     ''    }\<newline>'' @
     ''    description: |md\<newline>'' @
     ''      Tasks that do NOT print their template resolution (**silent: true**).\<newline>'' @
     ''      - This makes sure that **template resolution does not expose secret** variables\<newline>'' @
     ''      - There could be other, less important reasons why a template resolution is not printed to the screen\<newline>'' @
     ''    |\<newline>'' @
     ''  }\<newline>}''\<close>

text \<open>The body of the loop over the includes.\<close>

definition emitInclude :: "state \<Rightarrow> string \<Rightarrow> state" where
  \<open>emitInclude s inc =
     Write (quote inc @ ''.icon'') [''${'' @ includedTaskfileIconName @ ''}'']
       (s\<lparr>includesToIncludedTasks := (includesToIncludedTasks s)(inc \<mapsto> {})\<rparr>)\<close>

text \<open>The body of the loop over the required variables of the task \<open>taskName\<close>.\<close>

definition emitRequiredVar :: "string \<Rightarrow> state \<Rightarrow> RequiredVariable \<Rightarrow> state" where
  \<open>emitRequiredVar taskName s requiredVar =
     (let label = RequiredName requiredVar;
          label = (if length (Enum requiredVar) \<noteq> 0
                   then [CHR 0x22] @ label @ [CHR 0x5C] @ ''n['' @ Join (Enum requiredVar) '', ''
                        @ '']'' @ [CHR 0x22]
                   else label);
          s = Write (quote (RequiredName requiredVar))
                [label @ '' {shape: image; icon: ${'' @ varIconName @ ''}}''] s
      in Write (quote (RequiredName requiredVar) @ '' -> '' @ quote taskName)
           [''required by''] s)\<close>

text \<open>The loop over the inline calls, with its counter (a \<^verbatim>\<open>uint\<close> of 64 bits).\<close>

fun emitCalls :: "ext \<Rightarrow> string \<Rightarrow> Taskfile \<Rightarrow> nat \<Rightarrow> TaskCall list \<Rightarrow> state \<Rightarrow> error + state" where
  "emitCalls X taskName taskfile callCount [] s = Inr s"
| "emitCalls X taskName taskfile callCount (taskCall # rest) s =
     (let callCount = (callCount + 1) mod 2 ^ 64 in
      case EncapsulatePassedVars X taskName taskfile taskCall
             (''calls ('' @ decimal callCount @ '')'') ''passed to {style.stroke-dash: 3}'' s of
        Inl e \<Rightarrow> Inl e
      | Inr s' \<Rightarrow> emitCalls X taskName taskfile callCount rest s')"

text \<open>The inline calls with the value of the counter at each.\<close>

fun numbered :: "nat \<Rightarrow> 'a list \<Rightarrow> (nat \<times> 'a) list" where
  "numbered callCount [] = []"
| "numbered callCount (c # rest) =
     (let callCount = (callCount + 1) mod 2 ^ 64 in (callCount, c) # numbered callCount rest)"

text \<open>The body of the loop over the task names: first the statements of the task's own
  node, then its required variables, its dependency calls and its inline calls.\<close>

definition emitTaskNode :: "string \<Rightarrow> Task \<Rightarrow> state \<Rightarrow> state" where
  \<open>emitTaskNode taskName task s =
     (let s = (if Desc task \<noteq> [] \<or> Summary task \<noteq> [] then
                 let markdownText = [];
                     markdownText = (if Desc task \<noteq> []
                        then markdownText @ ''## Description\<newline>'' @ Desc task @ ''\<newline>''
                        else markdownText);
                     markdownText = (if Summary task \<noteq> []
                        then markdownText @ ''## Summary\<newline>'' @ Summary task @ ''\<newline>''
                        else markdownText)
                 in Write (quote taskName @ ''.Text'')
                      [''|md\<newline>'' @ markdownText @ ''|''] s
               else s);
          s = (if Silent task then Write (quote taskName @ ''.style.fill'') [''grey''] s
               else s);
          taskIcon = (if Internal task then internalTaskIconName else externalTaskIconName)
      in Write (quote taskName @ ''.icon'') [''${'' @ taskIcon @ ''}''] s)\<close>

text \<open>\<^verbatim>\<open>taskfile.Tasks[taskName]\<close>.\<close>

definition taskOf :: "Taskfile \<Rightarrow> string \<Rightarrow> Task" where
  "taskOf taskfile n = (case map_of (Tasks taskfile) n of Some t \<Rightarrow> t | None \<Rightarrow> zeroTask)"

definition emitTask :: "ext \<Rightarrow> Taskfile \<Rightarrow> string \<Rightarrow> state \<Rightarrow> error + state" where
  \<open>emitTask X taskfile taskName s =
     (let task = taskOf taskfile taskName;
          s = emitTaskNode taskName task s
      in case GetRequiredVars task of
           Inl e \<Rightarrow> Inl e
         | Inr requiredVars \<Rightarrow>
             let s = foldl (emitRequiredVar taskName) s requiredVars in
             case GetDepCalls task of
               Inl e \<Rightarrow> Inl e
             | Inr depCalls \<Rightarrow>
                 (case foldE (\<lambda>depCall. EncapsulatePassedVars X taskName taskfile depCall
                          ''calls as dependency''
                          ''passed to {style {stroke-dash: 3; stroke: green}}'') depCalls s of
                    Inl e \<Rightarrow> Inl e
                  | Inr s \<Rightarrow>
                      (case GetCalls task of
                         Inl e \<Rightarrow> Inl e
                       | Inr taskCalls \<Rightarrow> emitCalls X taskName taskfile 0 taskCalls s)))\<close>

text \<open>The fixed style rules that end every output.\<close>

definition styles :: "state \<Rightarrow> state" where
  \<open>styles s =
     (let s = Write ''(** -> **)[*].style''
                [''{\<newline>  stroke-width: 4\<newline>  font-size: 25\<newline>  bold: true\<newline>}''] s;
          s = Write ''(** -> **)[*]''
                [''{\<newline>  &label: required by\<newline>  style {\<newline>    stroke: red\<newline>    stroke-dash: 3\<newline>  }\<newline>}''] s;
          s = Write ''(** -> **)[*]''
                [''{\<newline>  &label: calls as dependency\<newline>  style {\<newline>    stroke: green\<newline>  }\<newline>}''] s;
          s = Write ''*''
                [''{\<newline>  !&shape: image\<newline>  style.bold: true\<newline>  style.font-size: 30\<newline>}''] s;
          s = Write ''**.icon'' [''{\<newline>  near: bottom-center\<newline>}''] s
      in Write ''**''
           [''{\<newline>  &shape: text\<newline>  style.font-size: 20\<newline>  style.bold: true\<newline>}''] s)\<close>

text \<open>
  \<^verbatim>\<open>TaskfileToD2\<close> from the decoded document on (the YAML decoder is a library). The
  argument \<open>p\<close> is the state of the process at the call: the package-level map as earlier
  runs left it and the number of identifiers drawn; the writer is new in every run.
  \<open>emitLegend\<close> is the start of the run, with the new writer, the images and the
  legend; \<open>translate\<close> is the run up to the last statement, \<open>TaskfileToD2\<close> renders
  it; the state is returned with the text, for a later call in the same process.
\<close>

definition emitLegend :: "ext \<Rightarrow> state \<Rightarrow> state" where
  "emitLegend X p =
     (let s = p\<lparr>data := []\<rparr>;
          s = Write ''vars'' [d2Vars] s;
          legendUuid = NewString X (uuids s);
          s = s\<lparr>uuids := Suc (uuids s)\<rparr>
      in Write legendUuid [legend] s)"

definition translate :: "ext \<Rightarrow> Taskfile \<Rightarrow> state \<Rightarrow> error + state" where
  "translate X taskfile p =
     (if Version taskfile \<noteq> ''3'' then Inl FatalVersion
      else
        let s = emitLegend X p;
            s = foldl emitInclude s (GetIncludes taskfile)
        in case foldE (emitTask X taskfile) (sortedKeys (Tasks taskfile)) s of
             Inl e \<Rightarrow> Inl e
           | Inr s \<Rightarrow> Inr (styles s))"

definition TaskfileToD2 :: "ext \<Rightarrow> Taskfile \<Rightarrow> state \<Rightarrow> error + string \<times> state" where
  "TaskfileToD2 X taskfile p =
     (case translate X taskfile p of Inl e \<Rightarrow> Inl e | Inr s \<Rightarrow> Inr (String s, s))"

section \<open>Example documents\<close>

text \<open>An instance of the library functions: the \<open>k\<close>-th identifier is \<open>id\<close> followed by
  \<open>k\<close>, and a string value is displayed between double quotes.\<close>

definition exampleExt :: ext where
  "exampleExt = \<lparr>NewString = (\<lambda>k. ''id'' @ decimal k),
     GoSyntax = (\<lambda>v. case v of AString s \<Rightarrow> [CHR 0x22] @ s @ [CHR 0x22] | _ \<Rightarrow> ''nil'')\<rparr>"

text \<open>The state of a process that has not called \<open>TaskfileToD2\<close> yet.\<close>

definition freshProcess :: state where
  "freshProcess = \<lparr>data = [], includesToIncludedTasks = Map.empty, uuids = 0\<rparr>"

definition emptyTaskfile :: Taskfile where
  "emptyTaskfile = \<lparr>Includes = [], Version = ''3'', TaskfileVars = [], Tasks = []\<rparr>"

text \<open>\<^verbatim>\<open>version: "2"\<close> and nothing else.\<close>

definition version2 :: Taskfile where
  "version2 = emptyTaskfile\<lparr>Version := ''2''\<rparr>"

text \<open>\<^verbatim>\<open>tasks: {build: {cmd: "make", cmds: ["make test"]}}\<close>\<close>

definition bothForms :: Task where
  "bothForms = zeroTask\<lparr>Cmd := AString ''make'', Cmds := Some [AString ''make test'']\<rparr>"

definition cmdAndCmds :: Taskfile where
  "cmdAndCmds = emptyTaskfile\<lparr>Tasks := [(''build'', bothForms)]\<rparr>"

text \<open>\<^verbatim>\<open>tasks: {deploy: {deps: ["infra:provision"]}}\<close>, with no \<^verbatim>\<open>includes\<close>.\<close>

definition deployTask :: Task where
  "deployTask = zeroTask\<lparr>Deps := [AString ''infra:provision'']\<rparr>"

definition undeclared :: Taskfile where
  "undeclared = emptyTaskfile\<lparr>Tasks := [(''deploy'', deployTask)]\<rparr>"

text \<open>The same task in a document that declares the include.\<close>

definition declared :: Taskfile where
  "declared = undeclared\<lparr>Includes := [(''infra'', AString ''./infra'')]\<rparr>"

text \<open>\<^verbatim>\<open>requires: {vars: [{name: ENV}]}\<close>, \<^verbatim>\<open>requires: {vars: [{name: ENV, enum: [1]}]}\<close>
  and \<^verbatim>\<open>requires: {vars: [DEBUG, {name: ENV, enum: [prod, staging]}]}\<close>.\<close>

definition nameOnly :: Task where
  "nameOnly = zeroTask\<lparr>Requires_Vars := [AMap [(''name'', AString ''ENV'')]]\<rparr>"

definition numericEnum :: Task where
  "numericEnum = zeroTask\<lparr>Requires_Vars :=
     [AMap [(''name'', AString ''ENV''), (''enum'', ASlice [AInt 1])]]\<rparr>"

definition release :: Task where
  "release = zeroTask\<lparr>Requires_Vars := [AString ''DEBUG'',
     AMap [(''name'', AString ''ENV''), (''enum'', ASlice [AString ''prod'', AString ''staging''])]]\<rparr>"

text \<open>One document, \<^verbatim>\<open>includes: {a: ./a, b: ./b}\<close>, as two loops over its includes may
  see it: the same map, visited in two orders.\<close>

definition includesAB :: Taskfile where
  "includesAB = emptyTaskfile\<lparr>Includes := [(''a'', AString ''./a''), (''b'', AString ''./b'')]\<rparr>"

definition includesBA :: Taskfile where
  "includesBA = emptyTaskfile\<lparr>Includes := [(''b'', AString ''./b''), (''a'', AString ''./a'')]\<rparr>"

text \<open>A call with two bindings, \<^verbatim>\<open>{task: "infra:provision", vars: {zone: "b", region: "us-east"}}\<close>.\<close>

definition provision :: any where
  "provision = AMap [(''task'', AString ''infra:provision''),
     (''vars'', AMap [(''zone'', AString ''b''), (''region'', AString ''us-east'')])]"

definition provisionCall :: TaskCall where
  "provisionCall = \<lparr>TaskName = ''infra:provision'',
     CallVars = [\<lparr>Name = ''region'', Value = AString ''us-east''\<rparr>,
                 \<lparr>Name = ''zone'', Value = AString ''b''\<rparr>]\<rparr>"

text \<open>A task with that call as its only dependency, the state of a new process after the
  loop over the includes of a document that declares \<open>infra\<close>, and the state after the
  emission of the call from there.\<close>

definition deployWith :: Task where
  "deployWith = zeroTask\<lparr>Deps := [provision]\<rparr>"

definition afterIncludes :: state where
  "afterIncludes = freshProcess\<lparr>includesToIncludedTasks := [''infra'' \<mapsto> {}]\<rparr>"

definition afterCall :: state where
  "afterCall = \<lparr>data =
       [quote ''deploy'' @ '' -> id0: calls as dependency'',
        ''id0 -> '' @ quote ''infra'' @ ''.'' @ quote ''provision'' @ '': passed to'',
        ''id0: With {shape: parallelogram; style.stroke-dash: 3}'',
        ''id0.'' @ quote ''region'' @ '': {shape: image; icon: ${varIcon}}'',
        ''id0.id1: '' @ [CHR 0x5C, CHR 0x22] @ ''us-east'' @ [CHR 0x5C, CHR 0x22] @ '' {shape: text}'',
        ''id0.'' @ quote ''region'' @ '' -> id0.id1: set to'',
        ''id0.'' @ quote ''zone'' @ '': {shape: image; icon: ${varIcon}}'',
        ''id0.id2: '' @ [CHR 0x5C, CHR 0x22] @ ''b'' @ [CHR 0x5C, CHR 0x22] @ '' {shape: text}'',
        ''id0.'' @ quote ''zone'' @ '' -> id0.id2: set to'',
        quote ''infra'' @ ''.'' @ quote ''provision'' @ ''.icon: ${unknownTaskIcon}''],
     includesToIncludedTasks = [''infra'' \<mapsto> {''provision''}],
     uuids = 3\<rparr>"

text \<open>\<^verbatim>\<open>tasks: {a: {deps: [nope, nope]}, b: {cmds: [{task: nope}]}}\<close>: three calls
  of a task that the document does not define.\<close>

definition unknownCalls :: Taskfile where
  "unknownCalls = emptyTaskfile\<lparr>Tasks :=
     [(''b'', zeroTask\<lparr>Cmds := Some [AMap [(''task'', AString ''nope'')]]\<rparr>),
      (''a'', zeroTask\<lparr>Deps := [AString ''nope'', AString ''nope'']\<rparr>)]\<rparr>"

text \<open>\<^verbatim>\<open>includes: {infra: ./infra}\<close> and three calls of \<open>infra:provision\<close>, two of
  them from the task \<open>a\<close> and one from the task \<open>b\<close>.\<close>

definition sameTarget :: Taskfile where
  "sameTarget = emptyTaskfile\<lparr>Includes := [(''infra'', AString ''./infra'')], Tasks :=
     [(''b'', zeroTask\<lparr>Cmds := Some [AMap [(''task'', AString ''infra:provision'')]]\<rparr>),
      (''a'', zeroTask\<lparr>Deps := [AString ''infra:provision'', AString ''infra:provision'']\<rparr>)]\<rparr>"

section \<open>Notions used in the statements\<close>

text \<open>The statement that puts the unknown-task icon on the node \<open>d\<close>.\<close>

definition unknownIconStatement :: "string \<Rightarrow> string" where
  "unknownIconStatement d = quote d @ ''.icon: ${unknownTaskIcon}''"

text \<open>How many times that statement stands among the statements written so far.\<close>

definition annotations :: "string \<Rightarrow> state \<Rightarrow> nat" where
  "annotations d s = count_list (data s) (unknownIconStatement d)"

text \<open>The pair of a namespace and a task of it is marked in the package-level map.\<close>

definition marked :: "string \<Rightarrow> string \<Rightarrow> state \<Rightarrow> bool" where
  "marked ns sub s =
     (case includesToIncludedTasks s ns of None \<Rightarrow> False | Some included \<Rightarrow> sub \<in> included)"

text \<open>What a run keeps true of a pair whose namespace is declared: the icon statement of
  the pair has been written once when the pair is marked, and not at all before.\<close>

definition annotatedOnce :: "string \<Rightarrow> string \<Rightarrow> state \<Rightarrow> bool" where
  "annotatedOnce ns sub s \<longleftrightarrow>
     includesToIncludedTasks s ns \<noteq> None \<and>
     annotations (calledD2TaskName (ns @ CHR '':'' # sub)) s = (if marked ns sub s then 1 else 0)"

text \<open>All the calls of a document in the order of their emission: task by task in
  sorted order, the dependency calls before the inline calls.\<close>

definition callsOf :: "Task \<Rightarrow> TaskCall list" where
  "callsOf t = (case GetDepCalls t of Inl e \<Rightarrow> [] | Inr ds \<Rightarrow> ds) @
               (case GetCalls t of Inl e \<Rightarrow> [] | Inr cs \<Rightarrow> cs)"

definition allCalls :: "Taskfile \<Rightarrow> TaskCall list" where
  "allCalls taskfile = concat (map (\<lambda>n. callsOf (taskOf taskfile n)) (sortedKeys (Tasks taskfile)))"

text \<open>The entries of \<^verbatim>\<open>requires.vars\<close> that \<open>GetRequiredVars\<close> accepts, each with its
  result: a string, or a map with a string under \<open>name\<close> and a list of strings under
  \<open>enum\<close>.\<close>

definition accepted :: "any \<Rightarrow> RequiredVariable \<Rightarrow> bool" where
  "accepted v r =
     (case v of
        AString n \<Rightarrow> RequiredName r = n \<and> Enum r = []
      | AMap m \<Rightarrow> index m ''name'' = AString (RequiredName r) \<and>
                 index m ''enum'' = ASlice (map AString (Enum r))
      | _ \<Rightarrow> False)"

text \<open>A value whose last characters tell its statement from the statement of an
  unknown-task icon, which ends in \<open>n}\<close>.\<close>

definition plainEnding :: "string \<Rightarrow> bool" where
  "plainEnding v \<longleftrightarrow>
     v \<noteq> [] \<and> (last v \<noteq> CHR ''}'' \<or> (butlast v \<noteq> [] \<and> last (butlast v) \<noteq> CHR ''n''))"

text \<open>Escaping as the specification words it: a backslash before every single quote,
  double quote and brace.\<close>

definition escaped :: "string \<Rightarrow> string" where
  "escaped s = concat (map (\<lambda>c.
     if c = CHR 0x27 \<or> c = CHR 0x22 \<or> c = CHR ''{'' \<or> c = CHR ''}'' then [CHR 0x5C, c] else [c]) s)"

text \<open>The statements of the bindings of a call as the specification lists them, inside
  the container \<open>u\<close>, the value nodes named by the identifiers from the \<open>k\<close>-th on: for
  each binding its variable node, its value node and the edge between the two.\<close>

fun bindingStatements :: "ext \<Rightarrow> string \<Rightarrow> nat \<Rightarrow> Variable list \<Rightarrow> string list" where
  "bindingStatements X u k [] = []"
| "bindingStatements X u k (v # vs) =
     [u @ ''.'' @ quote (Name v) @ '': {shape: image; icon: ${varIcon}}'',
      u @ ''.'' @ NewString X k @ '': '' @ escaped (GoSyntax X (Value v)) @ '' {shape: text}'',
      u @ ''.'' @ quote (Name v) @ '' -> '' @ u @ ''.'' @ NewString X k @ '': set to'']
     @ bindingStatements X u (Suc k) vs"

section \<open>Basic facts\<close>

lemma Write_one [simp]:
  "data (Write key [v] s) = data s @ [key @ '': '' @ v]"
  "includesToIncludedTasks (Write key vs s) = includesToIncludedTasks s"
  "uuids (Write key vs s) = uuids s"
  by (simp_all add: Write_def)

lemma set_sortedKeys: "set (sortedKeys m) = fst ` set m"
  by (simp add: sortedKeys_def keys_def)

lemma map_of_sortedKeys: "map_of m k = Some v \<Longrightarrow> k \<in> set (sortedKeys m)"
  by (metis set_sortedKeys map_of_SomeD image_eqI fst_conv)

lemma set_GetIncludes: "set (GetIncludes taskfile) = fst ` set (Includes taskfile)"
  by (simp add: GetIncludes_def keys_def)

subsection \<open>Loops that stop at the first failure\<close>

lemma foldE_inv:
  assumes "foldE f xs s = Inr s'" and "I s"
    and "\<And>x t t'. x \<in> set xs \<Longrightarrow> I t \<Longrightarrow> f x t = Inr t' \<Longrightarrow> I t'"
  shows "I s'"
  using assms
proof (induction xs arbitrary: s)
  case Nil
  then show ?case by simp
next
  case (Cons y ys)
  from Cons.prems(1) obtain t where t: "f y s = Inr t" "foldE f ys t = Inr s'"
    by (auto split: sum.splits)
  have "I t" using Cons.prems(2,3) t(1) by auto
  then show ?case using Cons.IH [OF t(2)] Cons.prems(3) by auto
qed

lemma foldE_fails:
  assumes "x \<in> set xs" and "I s"
    and "\<And>y t t'. I t \<Longrightarrow> f y t = Inr t' \<Longrightarrow> I t'"
    and "\<And>t. I t \<Longrightarrow> \<exists>e. f x t = Inl e"
  shows "\<exists>e. foldE f xs s = Inl e"
  using assms(1,2)
proof (induction xs arbitrary: s)
  case Nil
  then show ?case by simp
next
  case (Cons y ys)
  show ?case
  proof (cases "f y s")
    case (Inl e)
    then show ?thesis by simp
  next
    case (Inr t)
    then have t: "I t" using assms(3) Cons.prems(2) by blast
    have "y \<noteq> x" using assms(4) [OF Cons.prems(2)] Inr by auto
    then have "x \<in> set ys" using Cons.prems(1) by simp
    then show ?thesis using Cons.IH t Inr by simp
  qed
qed

text \<open>The loop over the inline calls is such a loop over the numbered calls.\<close>

lemma emitCalls_foldE:
  "emitCalls X taskName taskfile n cs s =
     foldE (\<lambda>(k, c). EncapsulatePassedVars X taskName taskfile c
              (''calls ('' @ decimal k @ '')'') ''passed to {style.stroke-dash: 3}'')
       (numbered n cs) s"
  by (induction cs arbitrary: n s) (simp_all add: Let_def split: sum.splits)

lemma map_snd_numbered [simp]: "map snd (numbered n cs) = cs"
  by (induction cs arbitrary: n) (simp_all add: Let_def)

lemma in_numbered: "c \<in> set cs \<Longrightarrow> \<exists>k. (k, c) \<in> set (numbered n cs)"
proof -
  assume "c \<in> set cs"
  then have "c \<in> snd ` set (numbered n cs)"
    by (metis map_snd_numbered set_map)
  then show ?thesis by force
qed

lemma numbered_in: "(k, c) \<in> set (numbered n cs) \<Longrightarrow> c \<in> set cs"
  by (metis map_snd_numbered set_map image_eqI snd_conv)

subsection \<open>What a step does to the package-level map\<close>

lemma connect_globals [simp]:
  "includesToIncludedTasks (connect X taskName c l1 l2 s) = includesToIncludedTasks s"
proof -
  have "includesToIncludedTasks (foldl (passedVar X u) t vs) = includesToIncludedTasks t"
    for u t vs
    by (induction vs arbitrary: t) (simp_all add: passedVar_def Let_def)
  then show ?thesis by (simp add: connect_def Let_def)
qed

lemma emitTaskNode_globals [simp]:
  "includesToIncludedTasks (emitTaskNode taskName t s) = includesToIncludedTasks s"
  "uuids (emitTaskNode taskName t s) = uuids s"
  by (simp_all add: emitTaskNode_def Let_def)

lemma emitRequiredVars_globals [simp]:
  "includesToIncludedTasks (foldl (emitRequiredVar taskName) s rs) = includesToIncludedTasks s"
  "uuids (foldl (emitRequiredVar taskName) s rs) = uuids s"
  by (induction rs arbitrary: s) (simp_all add: emitRequiredVar_def Let_def)

lemma emitLegend_globals [simp]:
  "includesToIncludedTasks (emitLegend X p) = includesToIncludedTasks p"
  "uuids (emitLegend X p) = Suc (uuids p)"
  by (simp_all add: emitLegend_def Let_def)

lemma emitIncludes_map:
  "includesToIncludedTasks (foldl emitInclude s incs) ns =
     (if ns \<in> set incs then Some {} else includesToIncludedTasks s ns)"
  by (induction incs arbitrary: s) (simp_all add: emitInclude_def)

text \<open>A call never adds a namespace to the map: it only adds a task under a namespace
  that is there.\<close>

lemma EncapsulatePassedVars_None:
  assumes "EncapsulatePassedVars X taskName taskfile c l1 l2 s = Inr s'"
    and "includesToIncludedTasks s ns = None"
  shows "includesToIncludedTasks s' ns = None"
  using assms
  by (auto simp: EncapsulatePassedVars_def Let_def split: if_splits option.splits)

lemma SplitN2_namespaced:
  "CHR '':'' \<notin> set ns \<Longrightarrow> SplitN2 (ns @ CHR '':'' # sub) = (ns, sub)"
  by (induction ns) (auto simp: SplitN2_def)

lemma EncapsulatePassedVars_nil_map:
  assumes "TaskName c = ns @ CHR '':'' # sub" and "CHR '':'' \<notin> set ns"
    and "includesToIncludedTasks s ns = None"
  shows "EncapsulatePassedVars X taskName taskfile c l1 l2 s = Inl PanicNilMap"
  using assms by (simp add: EncapsulatePassedVars_def Let_def SplitN2_namespaced)

subsection \<open>The shape of a task's emission\<close>

lemma taskOf_Some [simp]: "map_of (Tasks taskfile) n = Some t \<Longrightarrow> taskOf taskfile n = t"
  by (simp add: taskOf_def)

lemma emitTask_Inr:
  assumes "emitTask X taskfile taskName s = Inr s'"
  shows "\<exists>rs ds cs s2.
    GetRequiredVars (taskOf taskfile taskName) = Inr rs \<and>
    GetDepCalls (taskOf taskfile taskName) = Inr ds \<and>
    GetCalls (taskOf taskfile taskName) = Inr cs \<and>
    foldE (\<lambda>c. EncapsulatePassedVars X taskName taskfile c ''calls as dependency''
         ''passed to {style {stroke-dash: 3; stroke: green}}'') ds
       (foldl (emitRequiredVar taskName)
          (emitTaskNode taskName (taskOf taskfile taskName) s) rs) = Inr s2 \<and>
    foldE (\<lambda>(k, c). EncapsulatePassedVars X taskName taskfile c
         (''calls ('' @ decimal k @ '')'') ''passed to {style.stroke-dash: 3}'')
       (numbered 0 cs) s2 = Inr s'"
  using assms
  by (auto simp: emitTask_def Let_def emitCalls_foldE split: sum.splits)

subsection \<open>Running the example documents\<close>

text \<open>The equations that evaluate a run of an example; the images and the legend stay
  folded.\<close>

lemmas run_simps =
  TaskfileToD2_def translate_def emitLegend_def Let_def GetIncludes_def keys_def sortedKeys_def
  emitInclude_def emitTask_def taskOf_def emitTaskNode_def emitRequiredVar_def GetRequiredVars_def
  GetDepCalls_def GetCalls_def GetCmds_def EncapsulatePassedVars_def connect_def
  passedVar_def SplitN2_def calledD2TaskName_def ReplaceAll_def Replace_def escapes_def
  styles_def Write_def index_def List.map_filter_def
  externalTaskIconName_def internalTaskIconName_def unknownTaskIconName_def varIconName_def
  includedTaskfileIconName_def

lemmas example_simps =
  exampleExt_def freshProcess_def emptyTaskfile_def zeroTask_def undeclared_def
  declared_def deployTask_def includesAB_def includesBA_def

section \<open>Fatal terminations\<close>

text \<open>
  C8. A document whose version is not the string \<open>3\<close> (the string \<open>2\<close>, any other
  value, or the empty string of an absent key) makes the translation stop with the fatal
  version error, whatever the rest of the document and the state of the process: no
  statement is written and no text is returned.
\<close>

theorem C8_unsupported_version:
  "Version taskfile \<noteq> ''3'' \<Longrightarrow> TaskfileToD2 X taskfile p = Inl FatalVersion"
  by (simp add: TaskfileToD2_def translate_def)

theorem C8_unsupported_version_witness:
  "Version version2 \<noteq> ''3'' \<and> TaskfileToD2 exampleExt version2 freshProcess = Inl FatalVersion"
proof -
  have v: "Version version2 \<noteq> ''3''"
    by (simp add: version2_def emptyTaskfile_def)
  show ?thesis using v C8_unsupported_version [OF v] by simp
qed

lemma emitTask_GetCalls_fails:
  assumes "map_of (Tasks taskfile) taskName = Some t" and "GetCalls t = Inl e"
  shows "\<exists>e'. emitTask X taskfile taskName s = Inl e'"
  using assms by (simp add: emitTask_def Let_def split: sum.splits)

lemma translate_task_fails:
  assumes "taskName \<in> set (sortedKeys (Tasks taskfile))"
    and "\<And>s. I s \<Longrightarrow> \<exists>e. emitTask X taskfile taskName s = Inl e"
    and "\<And>n s s'. I s \<Longrightarrow> emitTask X taskfile n s = Inr s' \<Longrightarrow> I s'"
    and "\<And>s. includesToIncludedTasks s =
            includesToIncludedTasks (foldl emitInclude p (GetIncludes taskfile)) \<Longrightarrow> I s"
  shows "\<exists>e. translate X taskfile p = Inl e"
proof (cases "Version taskfile = ''3''")
  case False
  then show ?thesis by (simp add: translate_def)
next
  case True
  define s0 where "s0 = foldl emitInclude (emitLegend X p) (GetIncludes taskfile)"
  have "includesToIncludedTasks s0 =
      includesToIncludedTasks (foldl emitInclude p (GetIncludes taskfile))"
    by (rule ext) (simp add: s0_def emitIncludes_map)
  then have "I s0" by (rule assms(4))
  with assms(1) have "\<exists>e. foldE (emitTask X taskfile) (sortedKeys (Tasks taskfile)) s0 = Inl e"
    by (rule foldE_fails) (use assms(2,3) in blast)+
  then show ?thesis
    using True by (auto simp: translate_def Let_def s0_def)
qed

text \<open>
  C9. A task with both the single-command form and the multi-command form set makes the
  resolution of its command list fatal, and a document that holds such a task never gets
  a text out of \<open>TaskfileToD2\<close>: the run ends in a failure, at that task or before it.
\<close>

theorem C9_cmd_and_cmds:
  assumes "map_of (Tasks taskfile) taskName = Some t"
    and "Cmd t \<noteq> ANil" and "Cmds t \<noteq> None"
  shows "GetCmds t = Inl FatalCmdAndCmds \<and> (\<exists>e. TaskfileToD2 X taskfile p = Inl e)"
proof -
  have cmds: "GetCmds t = Inl FatalCmdAndCmds"
    using assms(2,3) by (simp add: GetCmds_def)
  then have "GetCalls t = Inl FatalCmdAndCmds"
    by (simp add: GetCalls_def)
  then have "\<And>s. \<exists>e. emitTask X taskfile taskName s = Inl e"
    using assms(1) emitTask_GetCalls_fails by blast
  then have "\<exists>e. translate X taskfile p = Inl e"
    using map_of_sortedKeys [OF assms(1)]
    by (intro translate_task_fails [where I = "\<lambda>_. True"]) auto
  then show ?thesis
    using cmds by (auto simp: TaskfileToD2_def)
qed

theorem C9_cmd_and_cmds_witness:
  "map_of (Tasks cmdAndCmds) ''build'' = Some bothForms \<and> Cmd bothForms \<noteq> ANil \<and>
   Cmds bothForms \<noteq> None \<and> GetCmds bothForms = Inl FatalCmdAndCmds \<and>
   (\<exists>e. TaskfileToD2 exampleExt cmdAndCmds freshProcess = Inl e)"
proof -
  have a: "map_of (Tasks cmdAndCmds) ''build'' = Some bothForms"
    by (simp add: cmdAndCmds_def emptyTaskfile_def)
  have b: "Cmd bothForms \<noteq> ANil" and c: "Cmds bothForms \<noteq> None"
    by (simp_all add: bothForms_def zeroTask_def)
  show ?thesis using a b c C9_cmd_and_cmds [OF a b c] by simp
qed

section \<open>A call into a namespace that no include declares\<close>

lemma emitTask_None:
  assumes "emitTask X taskfile n s = Inr s'" and "includesToIncludedTasks s ns = None"
  shows "includesToIncludedTasks s' ns = None"
proof -
  define t where "t = taskOf taskfile n"
  from assms(1) obtain rs ds cs s2 where
    d: "foldE (\<lambda>c. EncapsulatePassedVars X n taskfile c ''calls as dependency''
         ''passed to {style {stroke-dash: 3; stroke: green}}'') ds
       (foldl (emitRequiredVar n) (emitTaskNode n t s) rs) = Inr s2"
    and c: "foldE (\<lambda>(k, c). EncapsulatePassedVars X n taskfile c
         (''calls ('' @ decimal k @ '')'') ''passed to {style.stroke-dash: 3}'')
       (numbered 0 cs) s2 = Inr s'"
    by (auto simp: emitTask_def Let_def emitCalls_foldE t_def split: sum.splits)
  have "includesToIncludedTasks s2 ns = None"
    using d by (rule foldE_inv) (use assms(2) in \<open>auto intro: EncapsulatePassedVars_None\<close>)
  with c show ?thesis
    by (rule foldE_inv) (auto intro: EncapsulatePassedVars_None)
qed

lemma emitTask_nil_map:
  assumes "map_of (Tasks taskfile) taskName = Some t"
    and "GetDepCalls t = Inr cs \<or> GetCalls t = Inr cs" and "c \<in> set cs"
    and "TaskName c = ns @ CHR '':'' # sub" and "CHR '':'' \<notin> set ns"
    and "includesToIncludedTasks s ns = None"
  shows "\<exists>e. emitTask X taskfile taskName s = Inl e"
proof (rule ccontr)
  assume "\<not> ?thesis"
  then obtain s' where "emitTask X taskfile taskName s = Inr s'"
    by (cases "emitTask X taskfile taskName s") auto
  then obtain rs ds ics s2 where g: "GetDepCalls t = Inr ds" "GetCalls t = Inr ics"
    and d: "foldE (\<lambda>c. EncapsulatePassedVars X taskName taskfile c ''calls as dependency''
         ''passed to {style {stroke-dash: 3; stroke: green}}'') ds
       (foldl (emitRequiredVar taskName) (emitTaskNode taskName t s) rs) = Inr s2"
    and i: "foldE (\<lambda>(k, c). EncapsulatePassedVars X taskName taskfile c
         (''calls ('' @ decimal k @ '')'') ''passed to {style.stroke-dash: 3}'')
       (numbered 0 ics) s2 = Inr s'"
    using emitTask_Inr [of X taskfile taskName s s'] assms(1) by auto
  let ?I = "\<lambda>s. includesToIncludedTasks s ns = None"
  have s2: "?I s2"
    using d by (rule foldE_inv) (use assms(6) in \<open>auto intro: EncapsulatePassedVars_None\<close>)
  from assms(2) show False
  proof
    assume "GetDepCalls t = Inr cs"
    then have "c \<in> set ds" using g assms(3) by simp
    then have "\<exists>e. foldE (\<lambda>c. EncapsulatePassedVars X taskName taskfile c
         ''calls as dependency'' ''passed to {style {stroke-dash: 3; stroke: green}}'') ds
       (foldl (emitRequiredVar taskName) (emitTaskNode taskName t s) rs) = Inl e"
      by (rule foldE_fails [where I = ?I])
        (use assms(4,5,6) in \<open>auto intro: EncapsulatePassedVars_None
           simp: EncapsulatePassedVars_nil_map\<close>)
    with d show False by simp
  next
    assume "GetCalls t = Inr cs"
    then have "c \<in> set ics" using g assms(3) by simp
    then obtain k where "(k, c) \<in> set (numbered 0 ics)"
      using in_numbered [of c ics 0] by auto
    then have "\<exists>e. foldE (\<lambda>(k, c). EncapsulatePassedVars X taskName taskfile c
         (''calls ('' @ decimal k @ '')'') ''passed to {style.stroke-dash: 3}'')
       (numbered 0 ics) s2 = Inl e"
      by (rule foldE_fails [where I = ?I])
        (use assms(4,5) s2 in \<open>auto intro: EncapsulatePassedVars_None
           simp: EncapsulatePassedVars_nil_map\<close>)
    with i show False by simp
  qed
qed

text \<open>
  C3, as the code has it. Take a document in which some task has a dependency call or an
  inline call to \<open>ns:sub\<close>, where \<open>ns\<close> (the part before the first colon) is not a
  key of the document's includes, in a process whose package-level map has no entry for
  \<open>ns\<close>: the first run of a process, where the map is empty, or a later run when no
  earlier run declared \<open>ns\<close>. Emitting that call reads the nil map of \<open>ns\<close>, finds no
  mark and panics on the assignment to it; and \<open>TaskfileToD2\<close> returns no result: the
  run ends in a failure, at that call or before.
\<close>

theorem C3_undeclared_namespace:
  assumes "map_of (Tasks taskfile) taskName = Some t"
    and "GetDepCalls t = Inr cs \<or> GetCalls t = Inr cs" and "c \<in> set cs"
    and "TaskName c = ns @ CHR '':'' # sub" and "CHR '':'' \<notin> set ns"
    and "ns \<notin> set (GetIncludes taskfile)"
    and "includesToIncludedTasks p ns = None"
  shows "(\<forall>s l1 l2. includesToIncludedTasks s ns = None \<longrightarrow>
            EncapsulatePassedVars X taskName taskfile c l1 l2 s = Inl PanicNilMap) \<and>
         (\<exists>e. TaskfileToD2 X taskfile p = Inl e)"
proof -
  let ?I = "\<lambda>s. includesToIncludedTasks s ns = None"
  have "\<exists>e. translate X taskfile p = Inl e"
  proof (rule translate_task_fails [where I = ?I])
    show "taskName \<in> set (sortedKeys (Tasks taskfile))"
      using assms(1) by (rule map_of_sortedKeys)
    show "\<exists>e. emitTask X taskfile taskName s = Inl e" if "?I s" for s
      using assms(1,2,3,4,5) that by (rule emitTask_nil_map)
    show "?I s'" if "?I s" "emitTask X taskfile n s = Inr s'" for n s s'
      using that(2,1) by (rule emitTask_None)
    show "?I s" if "includesToIncludedTasks s =
        includesToIncludedTasks (foldl emitInclude p (GetIncludes taskfile))" for s
      using that assms(6,7) by (simp add: emitIncludes_map)
  qed
  then show ?thesis
    using assms(4,5) by (auto simp: TaskfileToD2_def EncapsulatePassedVars_nil_map)
qed

theorem C3_undeclared_namespace_witness:
  "map_of (Tasks undeclared) ''deploy'' = Some deployTask \<and>
   GetDepCalls deployTask = Inr [\<lparr>TaskName = ''infra:provision'', CallVars = []\<rparr>] \<and>
   ''infra'' \<notin> set (GetIncludes undeclared) \<and>
   includesToIncludedTasks freshProcess ''infra'' = None \<and>
   EncapsulatePassedVars exampleExt ''deploy'' undeclared
     \<lparr>TaskName = ''infra:provision'', CallVars = []\<rparr> ''calls as dependency'' ''passed to''
     freshProcess = Inl PanicNilMap \<and>
   (\<exists>e. TaskfileToD2 exampleExt undeclared freshProcess = Inl e)"
proof -
  let ?c = "\<lparr>TaskName = ''infra:provision'', CallVars = []\<rparr>"
  have a: "map_of (Tasks undeclared) ''deploy'' = Some deployTask"
    by (simp add: undeclared_def emptyTaskfile_def)
  have b: "GetDepCalls deployTask = Inr [?c] \<or> GetCalls deployTask = Inr [?c]"
    by (simp add: GetDepCalls_def deployTask_def zeroTask_def)
  have c: "?c \<in> set [?c]" by simp
  have d: "TaskName ?c = ''infra'' @ CHR '':'' # ''provision''" by simp
  have e: "CHR '':'' \<notin> set ''infra''" by simp
  have f: "''infra'' \<notin> set (GetIncludes undeclared)"
    by (simp add: GetIncludes_def keys_def undeclared_def emptyTaskfile_def)
  have g: "includesToIncludedTasks freshProcess ''infra'' = None"
    by (simp add: freshProcess_def)
  show ?thesis
    using a b f g C3_undeclared_namespace [OF a b c d e f g, of exampleExt]
    by (simp add: GetDepCalls_def deployTask_def zeroTask_def)
qed

text \<open>The claim as the specification words it, for every such document whatever the
  process has done before, fails: the map is never cleared, so after a run on a document
  that declares \<open>infra\<close> the entry of \<open>infra\<close> is still there, and a run in the same
  process on the document that calls \<open>infra:provision\<close> without declaring \<open>infra\<close>
  finds a map that is not nil, does not panic and returns a text.\<close>

theorem C3_stale_namespace_counterexample:
  "map_of (Tasks undeclared) ''deploy'' = Some deployTask \<and>
   GetDepCalls deployTask = Inr [\<lparr>TaskName = ''infra:provision'', CallVars = []\<rparr>] \<and>
   ''infra'' \<notin> set (GetIncludes undeclared) \<and>
   \<not> isl (TaskfileToD2 exampleExt undeclared
            (snd (projr (TaskfileToD2 exampleExt declared freshProcess))))"
  by (simp add: run_simps example_simps)

section \<open>Required variables\<close>

lemma mapE_Inr_D: "mapE f xs = Inr ys \<Longrightarrow> list_all2 (\<lambda>x y. f x = Inr y) xs ys"
  by (induction xs arbitrary: ys) (auto split: sum.splits)

lemma mapE_Inr_I: "list_all2 (\<lambda>x y. f x = Inr y) xs ys \<Longrightarrow> mapE f xs = Inr ys"
  by (induction rule: list_all2_induct) auto

lemma mapE_Inr: "mapE f xs = Inr ys \<longleftrightarrow> list_all2 (\<lambda>x y. f x = Inr y) xs ys"
  using mapE_Inr_D mapE_Inr_I by blast

lemma map_AString_eq [simp]: "map AString xs = map AString ys \<longleftrightarrow> xs = ys"
  by (simp add: inj_map_eq_map inj_def)

lemma enumString_Inr [simp]: "enumString e = Inr s \<longleftrightarrow> e = AString s"
  by (cases e) auto

lemma mapE_enumString: "mapE enumString es = Inr ss \<longleftrightarrow> es = map AString ss"
  by (auto simp: mapE_Inr list_all2_conv_all_nth list_eq_iff_nth_eq)

lemma mapE_enumString_Inl: "mapE enumString es = Inl e \<Longrightarrow> e = PanicTypeAssertion"
proof (induction es)
  case Nil
  then show ?case by simp
next
  case (Cons a es)
  then show ?case by (cases a) (auto split: sum.splits)
qed

lemma requiredVarOf_Inr: "requiredVarOf v = Inr r \<longleftrightarrow> accepted v r"
proof (cases v)
  case (AMap m)
  show ?thesis
  proof (cases "index m ''name''")
    case n: (AString n)
    show ?thesis
    proof (cases "index m ''enum''")
      case es: (ASlice es)
      show ?thesis
      proof (cases "mapE enumString es")
        case (Inl e)
        then have "es \<noteq> map AString ss" for ss
          using mapE_enumString [of es ss] by auto
        then show ?thesis using AMap n es Inl by (auto simp: accepted_def)
      next
        case (Inr ss)
        then have "es = map AString ss" by (simp add: mapE_enumString)
        then show ?thesis using AMap n es Inr by (cases r) (auto simp: accepted_def)
      qed
    qed (use AMap n in \<open>auto simp: accepted_def\<close>)
  qed (use AMap in \<open>auto simp: accepted_def\<close>)
qed (cases r; auto simp: accepted_def)+

lemma requiredVarOf_Inl:
  "requiredVarOf v = Inl e \<Longrightarrow> e = PanicShape \<or> e = PanicTypeAssertion"
  by (cases v) (auto split: any.splits sum.splits dest: mapE_enumString_Inl)

lemma mapE_Inl: "mapE f xs = Inl e \<Longrightarrow> \<exists>x \<in> set xs. f x = Inl e"
proof (induction xs)
  case Nil
  then show ?case by simp
next
  case (Cons a xs)
  then show ?case by (auto split: sum.splits)
qed

text \<open>
  C7, as the code has it. \<open>GetRequiredVars\<close> returns exactly when every entry is a bare
  string, which gives its name and no enumeration, or a map that carries a string under
  \<open>name\<close> and a list of strings under \<open>enum\<close>, which gives the name and those strings
  in their order (the values are required to be strings, none is converted). Every other
  list of entries ends the program with a panic: of the type switch for an entry that is
  neither a string nor a map, of a type assertion for a map without a string name,
  without an \<open>enum\<close> list, or with a value in the list that is not a string.
\<close>

theorem C7_required_vars:
  "(GetRequiredVars t = Inr rs \<longleftrightarrow> list_all2 accepted (Requires_Vars t) rs) \<and>
   (GetRequiredVars t = Inl e \<longrightarrow> e = PanicShape \<or> e = PanicTypeAssertion)"
proof -
  have "GetRequiredVars t = Inr rs \<longleftrightarrow> list_all2 accepted (Requires_Vars t) rs"
    by (simp add: GetRequiredVars_def mapE_Inr requiredVarOf_Inr)
  moreover have "e = PanicShape \<or> e = PanicTypeAssertion" if "GetRequiredVars t = Inl e"
    using that mapE_Inl [of requiredVarOf "Requires_Vars t" e] requiredVarOf_Inl
    by (auto simp: GetRequiredVars_def)
  ultimately show ?thesis by blast
qed

theorem C7_required_vars_witness:
  "list_all2 accepted (Requires_Vars release)
     [\<lparr>RequiredName = ''DEBUG'', Enum = []\<rparr>,
      \<lparr>RequiredName = ''ENV'', Enum = [''prod'', ''staging'']\<rparr>] \<and>
   GetRequiredVars release =
     Inr [\<lparr>RequiredName = ''DEBUG'', Enum = []\<rparr>,
          \<lparr>RequiredName = ''ENV'', Enum = [''prod'', ''staging'']\<rparr>] \<and>
   GetRequiredVars numericEnum = Inl PanicTypeAssertion"
proof -
  let ?rs = "[\<lparr>RequiredName = ''DEBUG'', Enum = []\<rparr>,
      \<lparr>RequiredName = ''ENV'', Enum = [''prod'', ''staging'']\<rparr>]"
  have a: "list_all2 accepted (Requires_Vars release) ?rs"
    by (simp add: release_def zeroTask_def accepted_def index_def)
  have b: "GetRequiredVars numericEnum = Inl PanicTypeAssertion"
    by (simp add: GetRequiredVars_def numericEnum_def zeroTask_def index_def)
  show ?thesis
    using a b C7_required_vars [of release ?rs PanicTypeAssertion]
      C7_required_vars [of numericEnum "[]" PanicTypeAssertion]
    by simp
qed

text \<open>The claim as the specification words it fails: a map with a name and no
  enumeration is not turned into a required variable without enumeration, it ends the
  program; and a value of the enumeration that is not a string is not converted.\<close>

theorem C7_name_only_counterexample:
  "GetRequiredVars nameOnly \<noteq> Inr [\<lparr>RequiredName = ''ENV'', Enum = []\<rparr>] \<and>
   GetRequiredVars nameOnly = Inl PanicTypeAssertion \<and>
   GetRequiredVars numericEnum \<noteq> Inr [\<lparr>RequiredName = ''ENV'', Enum = [''1'']\<rparr>]"
  by (simp add: GetRequiredVars_def nameOnly_def numericEnum_def zeroTask_def index_def)

section \<open>The package-level map across runs\<close>


lemma emitIncludes_uuids [simp]: "uuids (foldl emitInclude s incs) = uuids s"
  by (induction incs arbitrary: s) (simp_all add: emitInclude_def)



subsection \<open>A second run in the same process\<close>


section \<open>The order of the includes\<close>

text \<open>
  C2 on the code. The loop over the includes takes the names from \<open>GetIncludes\<close>, which
  returns them as the loop over the map visits them, unsorted (the loop over the tasks
  sorts its names). When the runtime visits \<open>b\<close> before \<open>a\<close>, the container of \<open>b\<close>
  is emitted before that of \<open>a\<close>.
\<close>

theorem C2_includes_in_iteration_order:
  "take 2 (drop 2 (data (snd (projr (TaskfileToD2 exampleExt includesBA freshProcess))))) =
     [quote ''b'' @ ''.icon: ${includedTaskfileIcon}'',
      quote ''a'' @ ''.icon: ${includedTaskfileIcon}'']"
  by (simp add: run_simps example_simps quote_def)

text \<open>
  C1 on the code. The two examples are one document, the same map of includes, as two
  runs may visit it. Both runs return, from the same state of the process and with the
  same identifiers, and their texts differ.
\<close>

theorem C1_two_runs_differ:
  "map_of (Includes includesAB) = map_of (Includes includesBA) \<and>
   \<not> isl (TaskfileToD2 exampleExt includesAB freshProcess) \<and>
   \<not> isl (TaskfileToD2 exampleExt includesBA freshProcess) \<and>
   fst (projr (TaskfileToD2 exampleExt includesAB freshProcess)) \<noteq>
   fst (projr (TaskfileToD2 exampleExt includesBA freshProcess))"
proof -
  have "map_of (Includes includesAB) = map_of (Includes includesBA)"
    by (auto simp: includesAB_def includesBA_def emptyTaskfile_def fun_eq_iff)
  then show ?thesis
    by (simp add: run_simps example_simps quote_def String_def decimal.simps)
qed

subsection \<open>The order of the tasks\<close>

text \<open>The run reads the task mapping only through its lookups and its sorted keys, so
  the order in which the runtime visits the tasks has no effect on the result.\<close>

lemma sortedKeys_map_of:
  assumes "map_of a = map_of b"
  shows "sortedKeys a = sortedKeys b"
proof -
  have "fst ` set a = fst ` set b"
    using assms by (metis dom_map_of_conv_image_fst)
  then have s: "set (map fst a) = set (map fst b)" by simp
  have "sort (remdups (map fst a)) = sorted_list_of_set (set (map fst a))"
    by (rule sorted_list_of_set_sort_remdups [symmetric])
  also have "\<dots> = sorted_list_of_set (set (map fst b))"
    by (simp only: s)
  also have "\<dots> = sort (remdups (map fst b))"
    by (rule sorted_list_of_set_sort_remdups)
  finally show ?thesis
    by (simp add: sortedKeys_def keys_def)
qed

lemma EncapsulatePassedVars_tasks:
  "map_of ts = map_of (Tasks taskfile) \<Longrightarrow>
     EncapsulatePassedVars X taskName (taskfile\<lparr>Tasks := ts\<rparr>) c l1 l2 s =
     EncapsulatePassedVars X taskName taskfile c l1 l2 s"
  by (simp add: EncapsulatePassedVars_def Let_def)

lemma emitCalls_tasks:
  "map_of ts = map_of (Tasks taskfile) \<Longrightarrow>
     emitCalls X taskName (taskfile\<lparr>Tasks := ts\<rparr>) k cs s = emitCalls X taskName taskfile k cs s"
  by (induction cs arbitrary: k s)
    (simp_all add: Let_def EncapsulatePassedVars_tasks split: sum.splits)

lemma emitTask_tasks:
  assumes "map_of ts = map_of (Tasks taskfile)"
  shows "emitTask X (taskfile\<lparr>Tasks := ts\<rparr>) = emitTask X taskfile"
proof (intro ext)
  fix taskName s
  have "EncapsulatePassedVars X taskName (taskfile\<lparr>Tasks := ts\<rparr>) =
      EncapsulatePassedVars X taskName taskfile"
    using assms by (intro ext) (rule EncapsulatePassedVars_tasks)
  then show "emitTask X (taskfile\<lparr>Tasks := ts\<rparr>) taskName s = emitTask X taskfile taskName s"
    using assms
    by (simp add: emitTask_def taskOf_def emitCalls_tasks Let_def split: sum.splits)
qed

lemma tasks_in_any_order:
  assumes "map_of ts = map_of (Tasks taskfile)"
  shows "TaskfileToD2 X (taskfile\<lparr>Tasks := ts\<rparr>) p = TaskfileToD2 X taskfile p"
  using assms sortedKeys_map_of [OF assms]
  by (simp add: TaskfileToD2_def translate_def GetIncludes_def emitTask_tasks Let_def)

section \<open>The statements of a call\<close>

lemma Replace_escapes: "Replace escapes s = escaped s"
  by (induction s) (simp_all add: Replace_def escaped_def escapes_def)

lemma passedVars_statements:
  "data (foldl (passedVar X u) s vs) = data s @ bindingStatements X u (uuids s) vs \<and>
   uuids (foldl (passedVar X u) s vs) = uuids s + length vs"
  by (induction vs arbitrary: s)
    (simp_all add: passedVar_def Let_def Replace_escapes varIconName_def)

lemma connect_data:
  "data (connect X taskName c l1 l2 s) = data s @
     (if CallVars c = [] then
        [quote taskName @ '' -> '' @ quote (calledD2TaskName (TaskName c)) @ '': '' @ l1]
      else
        [quote taskName @ '' -> '' @ NewString X (uuids s) @ '': '' @ l1,
         NewString X (uuids s) @ '' -> '' @ quote (calledD2TaskName (TaskName c)) @ '': '' @ l2,
         NewString X (uuids s) @ '': With {shape: parallelogram; style.stroke-dash: 3}'']
        @ bindingStatements X (NewString X (uuids s)) (Suc (uuids s)) (CallVars c))"
  by (simp add: connect_def Let_def passedVars_statements)

lemma connect_uuids:
  "uuids (connect X taskName c l1 l2 s) =
     uuids s + (if CallVars c = [] then 0 else Suc (length (CallVars c)))"
  by (simp add: connect_def Let_def passedVars_statements)

text \<open>After the edges, a call writes at most the statement of the unknown-task icon.\<close>

lemma EncapsulatePassedVars_Inr:
  assumes "EncapsulatePassedVars X taskName taskfile c l1 l2 s = Inr s'"
  shows "\<exists>icon. (icon = [] \<or> icon = [unknownIconStatement (calledD2TaskName (TaskName c))]) \<and>
           data s' = data (connect X taskName c l1 l2 s) @ icon \<and>
           uuids s' = uuids (connect X taskName c l1 l2 s)"
  using assms
  by (auto simp: EncapsulatePassedVars_def Let_def unknownIconStatement_def
      unknownTaskIconName_def split: if_splits option.splits)

lemma passedVars_sorted:
  "sorted (map Name (passedVars v)) \<and> distinct (map Name (passedVars v))"
  by (cases v) (simp_all add: sortedKeys_def keys_def comp_def)

lemma depCallOf_sorted:
  "depCallOf d = Inr c \<Longrightarrow> sorted (map Name (CallVars c)) \<and> distinct (map Name (CallVars c))"
  by (cases d) (auto simp: passedVars_sorted split: any.splits)

lemma cmdCallOf_sorted:
  "cmdCallOf d = Some c \<Longrightarrow> sorted (map Name (CallVars c)) \<and> distinct (map Name (CallVars c))"
  by (cases d) (auto simp: passedVars_sorted split: any.splits)

lemma GetDepCalls_sorted:
  assumes "GetDepCalls t = Inr cs" and "c \<in> set cs"
  shows "sorted (map Name (CallVars c)) \<and> distinct (map Name (CallVars c))"
proof -
  have "list_all2 (\<lambda>d c. depCallOf d = Inr c) (Deps t) cs"
    using assms(1) by (simp add: GetDepCalls_def mapE_Inr)
  then obtain d where "depCallOf d = Inr c"
    using assms(2) by (auto simp: list_all2_conv_all_nth in_set_conv_nth)
  then show ?thesis by (rule depCallOf_sorted)
qed

lemma GetCalls_sorted:
  assumes "GetCalls t = Inr cs" and "c \<in> set cs"
  shows "sorted (map Name (CallVars c)) \<and> distinct (map Name (CallVars c))"
proof -
  obtain cmds where "cs = List.map_filter cmdCallOf cmds"
    using assms(1) by (auto simp: GetCalls_def split: sum.splits)
  then obtain d where "cmdCallOf d = Some c"
    using assms(2) by (auto simp: List.map_filter_def)
  then show ?thesis by (rule cmdCallOf_sorted)
qed

text \<open>
  C6. A call that is emitted (the emission returns) adds, after the statements that were
  there: without bindings, the single edge from the source to the target with the first
  label; with bindings, under the next identifier \<open>u\<close> of the library, the edge from the
  source to \<open>u\<close> with the first label, the edge from \<open>u\<close> to the target with the second
  label, the node \<open>u\<close> as a parallelogram named With, and for each binding in its order
  the variable node with the variable icon, a text node, under the next identifier, that
  holds the escaped verbose display of the value, and the edge \<open>set to\<close> from the
  first to the second. Nothing follows but, at most, the statement of the unknown-task
  icon of the target. The bindings of a call that the document model produces, from a
  dependency or from a command, are in strictly ascending order of their names.
\<close>

theorem C6_call_statements:
  "(EncapsulatePassedVars X taskName taskfile c l1 l2 s = Inr s' \<longrightarrow>
      (\<exists>icon. (icon = [] \<or> icon = [unknownIconStatement (calledD2TaskName (TaskName c))]) \<and>
         data s' = data s @
           (if CallVars c = [] then
              [quote taskName @ '' -> '' @ quote (calledD2TaskName (TaskName c)) @ '': '' @ l1]
            else
              [quote taskName @ '' -> '' @ NewString X (uuids s) @ '': '' @ l1,
               NewString X (uuids s) @ '' -> '' @ quote (calledD2TaskName (TaskName c))
                 @ '': '' @ l2,
               NewString X (uuids s) @ '': With {shape: parallelogram; style.stroke-dash: 3}'']
              @ bindingStatements X (NewString X (uuids s)) (Suc (uuids s)) (CallVars c))
           @ icon)) \<and>
   ((GetDepCalls t = Inr cs \<or> GetCalls t = Inr cs) \<and> c \<in> set cs \<longrightarrow>
      sorted (map Name (CallVars c)) \<and> distinct (map Name (CallVars c)))"
proof (intro conjI impI)
  assume "EncapsulatePassedVars X taskName taskfile c l1 l2 s = Inr s'"
  from EncapsulatePassedVars_Inr [OF this]
  show "\<exists>icon. (icon = [] \<or> icon = [unknownIconStatement (calledD2TaskName (TaskName c))]) \<and>
         data s' = data s @
           (if CallVars c = [] then
              [quote taskName @ '' -> '' @ quote (calledD2TaskName (TaskName c)) @ '': '' @ l1]
            else
              [quote taskName @ '' -> '' @ NewString X (uuids s) @ '': '' @ l1,
               NewString X (uuids s) @ '' -> '' @ quote (calledD2TaskName (TaskName c))
                 @ '': '' @ l2,
               NewString X (uuids s) @ '': With {shape: parallelogram; style.stroke-dash: 3}'']
              @ bindingStatements X (NewString X (uuids s)) (Suc (uuids s)) (CallVars c))
           @ icon"
    unfolding connect_data by (metis append.assoc)
next
  assume "(GetDepCalls t = Inr cs \<or> GetCalls t = Inr cs) \<and> c \<in> set cs"
  then show "sorted (map Name (CallVars c))" and "distinct (map Name (CallVars c))"
    using GetDepCalls_sorted GetCalls_sorted by blast+
qed

theorem C6_call_statements_witness:
  "EncapsulatePassedVars exampleExt ''deploy'' declared provisionCall
     ''calls as dependency'' ''passed to'' afterIncludes = Inr afterCall \<and>
   GetDepCalls deployWith = Inr [provisionCall] \<and>
   data afterCall = data afterIncludes @
     [quote ''deploy'' @ '' -> id0: calls as dependency'',
      ''id0 -> '' @ quote (calledD2TaskName ''infra:provision'') @ '': passed to'',
      ''id0: With {shape: parallelogram; style.stroke-dash: 3}'']
     @ bindingStatements exampleExt ''id0'' 1 (CallVars provisionCall)
     @ [unknownIconStatement (calledD2TaskName ''infra:provision'')] \<and>
   sorted (map Name (CallVars provisionCall))"
proof -
  have a: "EncapsulatePassedVars exampleExt ''deploy'' declared provisionCall
     ''calls as dependency'' ''passed to'' afterIncludes = Inr afterCall"
    by (simp add: run_simps example_simps afterCall_def afterIncludes_def provisionCall_def
        quote_def decimal.simps)
  have b: "GetDepCalls deployWith = Inr [provisionCall]"
    by (simp add: run_simps deployWith_def provision_def provisionCall_def zeroTask_def)
  have c: "provisionCall \<in> set [provisionCall]" by simp
  have d: "data afterCall = data afterIncludes @
     [quote ''deploy'' @ '' -> id0: calls as dependency'',
      ''id0 -> '' @ quote (calledD2TaskName ''infra:provision'') @ '': passed to'',
      ''id0: With {shape: parallelogram; style.stroke-dash: 3}'']
     @ bindingStatements exampleExt ''id0'' 1 (CallVars provisionCall)
     @ [unknownIconStatement (calledD2TaskName ''infra:provision'')]"
    by (simp add: afterCall_def afterIncludes_def freshProcess_def provisionCall_def
        exampleExt_def escaped_def unknownIconStatement_def calledD2TaskName_def
        ReplaceAll_def quote_def decimal.simps)
  show ?thesis
    using a b d C6_call_statements [of exampleExt "''deploy''" declared provisionCall
        "''calls as dependency''" "''passed to''" afterIncludes afterCall deployWith
        "[provisionCall]"]
    by simp
qed

section \<open>Counting the unknown-task icons of a node\<close>

subsection \<open>Statements that are not the icon statement\<close>

lemma unknownIconStatement_inj [simp]:
  "unknownIconStatement a = unknownIconStatement b \<longleftrightarrow> a = b"
  by (simp add: unknownIconStatement_def quote_def)

text \<open>The icon statement ends in \<open>n}\<close>; nearly every other statement ends otherwise.\<close>

lemma not_icon:
  "last st \<noteq> CHR ''}'' \<or> last (butlast st) \<noteq> CHR ''n'' \<Longrightarrow> st \<noteq> unknownIconStatement d"
  by (auto simp: unknownIconStatement_def quote_def butlast_append)

lemma not_icon_other_icon:
  "quote a @ ''.icon: ${internalTaskIcon}'' \<noteq> unknownIconStatement d"
  "quote a @ ''.icon: ${externalTaskIcon}'' \<noteq> unknownIconStatement d"
  "quote a @ ''.icon: ${includedTaskfileIcon}'' \<noteq> unknownIconStatement d"
proof -
  have r: "rev x \<noteq> rev y \<Longrightarrow> x \<noteq> y" for x y :: string by auto
  show "quote a @ ''.icon: ${internalTaskIcon}'' \<noteq> unknownIconStatement d"
    by (rule r) (simp add: unknownIconStatement_def quote_def)
  show "quote a @ ''.icon: ${externalTaskIcon}'' \<noteq> unknownIconStatement d"
    by (rule r) (simp add: unknownIconStatement_def quote_def)
  show "quote a @ ''.icon: ${includedTaskfileIcon}'' \<noteq> unknownIconStatement d"
    by (rule r) (simp add: unknownIconStatement_def quote_def)
qed

lemma annotations_Write_plain:
  assumes "v \<noteq> []"
    and "last v \<noteq> CHR ''}'' \<or> (butlast v \<noteq> [] \<and> last (butlast v) \<noteq> CHR ''n'')"
  shows "annotations d (Write key [v] s) = annotations d s"
proof -
  have "key @ '': '' @ v \<noteq> unknownIconStatement d"
    by (rule not_icon) (use assms in \<open>auto simp: butlast_append\<close>)
  then show ?thesis by (simp add: annotations_def)
qed

lemma annotations_Write_icon:
  "annotations d (Write (quote a @ ''.icon'') [CHR ''$'' # CHR ''{'' # unknownTaskIconName @ ''}''] s) =
     annotations d s + (if a = d then 1 else 0)"
proof -
  have "quote a @ ''.icon'' @ '': '' @ ''${'' @ unknownTaskIconName @ ''}'' =
      unknownIconStatement a"
    by (simp add: unknownIconStatement_def unknownTaskIconName_def)
  then show ?thesis by (auto simp: annotations_def)
qed

lemma annotations_Write_other_icon:
  assumes "n = internalTaskIconName \<or> n = externalTaskIconName \<or> n = includedTaskfileIconName"
  shows "annotations d (Write (quote a @ ''.icon'') [CHR ''$'' # CHR ''{'' # n @ ''}''] s) =
     annotations d s"
proof -
  have "quote a @ ''.icon'' @ '': '' @ ''${'' @ n @ ''}'' \<noteq> unknownIconStatement d"
    using assms not_icon_other_icon [of a d]
    by (auto simp: internalTaskIconName_def externalTaskIconName_def
        includedTaskfileIconName_def)
  then show ?thesis by (simp add: annotations_def)
qed

lemma annotations_update [simp]:
  "annotations d (s\<lparr>includesToIncludedTasks := m\<rparr>) = annotations d s"
  "annotations d (s\<lparr>uuids := k\<rparr>) = annotations d s"
  by (simp_all add: annotations_def)

lemmas annotations_simps =
  annotations_Write_plain annotations_Write_other_icon butlast_append Let_def

lemma annotations_emitTaskNode [simp]:
  "annotations d (emitTaskNode taskName t s) = annotations d s"
  by (simp add: emitTaskNode_def annotations_simps)

lemma annotations_emitRequiredVar [simp]:
  "annotations d (foldl (emitRequiredVar taskName) s rs) = annotations d s"
  by (induction rs arbitrary: s)
    (simp_all add: emitRequiredVar_def annotations_simps varIconName_def)

lemma annotations_emitInclude [simp]:
  "annotations d (foldl emitInclude s incs) = annotations d s"
  by (induction incs arbitrary: s) (simp_all add: emitInclude_def annotations_simps)

lemma annotations_styles [simp]: "annotations d (styles s) = annotations d s"
  by (simp add: styles_def annotations_simps)

lemma styles_globals [simp]:
  "includesToIncludedTasks (styles s) = includesToIncludedTasks s"
  by (simp add: styles_def)

subsection \<open>The statements of a call\<close>

lemma plainEnding_labels [simp]:
  "plainEnding ''calls as dependency''"
  "plainEnding ''passed to {style {stroke-dash: 3; stroke: green}}''"
  "plainEnding (''calls ('' @ decimal k @ '')'')"
  "plainEnding ''passed to {style.stroke-dash: 3}''"
  by (simp_all add: plainEnding_def butlast_append)

lemma plainEnding_append: "plainEnding v \<Longrightarrow> plainEnding (u @ v)"
  by (auto simp: plainEnding_def butlast_append)

lemma annotations_Write_plainEnding:
  "plainEnding v \<Longrightarrow> annotations d (Write key [v] s) = annotations d s"
  by (rule annotations_Write_plain) (simp_all add: plainEnding_def)

lemma annotations_passedVars [simp]:
  "annotations d (foldl (passedVar X u) s vs) = annotations d s"
  by (induction vs arbitrary: s)
    (simp_all add: passedVar_def annotations_simps varIconName_def)

lemma annotations_connect [simp]:
  assumes "plainEnding l1" and "plainEnding l2"
  shows "annotations d (connect X taskName c l1 l2 s) = annotations d s"
  using assms
  by (simp add: connect_def Let_def annotations_Write_plainEnding annotations_Write_plain
      butlast_append)

lemma calledD2TaskName_flat: "CHR '':'' \<notin> set n \<Longrightarrow> calledD2TaskName n = n"
  by (induction n) (auto simp: calledD2TaskName_def ReplaceAll_def)

lemma SplitN2_colon:
  assumes "CHR '':'' \<in> set n"
  shows "fst (SplitN2 n) @ CHR '':'' # snd (SplitN2 n) = n \<and> CHR '':'' \<notin> set (fst (SplitN2 n))"
  using assms by (induction n) (auto simp: SplitN2_def)

lemma namespaced_eq:
  assumes "ns @ CHR '':'' # sub = ns' @ CHR '':'' # sub'"
    and "CHR '':'' \<notin> set ns" and "CHR '':'' \<notin> set ns'"
  shows "ns = ns' \<and> sub = sub'"
proof -
  from assms(1) have "SplitN2 (ns @ CHR '':'' # sub) = SplitN2 (ns' @ CHR '':'' # sub')"
    by (rule arg_cong)
  then show ?thesis
    unfolding SplitN2_namespaced [OF assms(2)] SplitN2_namespaced [OF assms(3)] by simp
qed

text \<open>What a call that returns has done.\<close>

lemma EncapsulatePassedVars_flat:
  assumes "CHR '':'' \<notin> set (TaskName c)"
  shows "EncapsulatePassedVars X taskName taskfile c l1 l2 s =
     Inr (if map_of (Tasks taskfile) (TaskName c) = None
          then Write (quote (TaskName c) @ ''.icon'') [''${'' @ unknownTaskIconName @ ''}'']
                 (connect X taskName c l1 l2 s)
          else connect X taskName c l1 l2 s)"
  using assms by (simp add: EncapsulatePassedVars_def Let_def calledD2TaskName_flat)

lemma EncapsulatePassedVars_namespaced:
  assumes "TaskName c = ns @ CHR '':'' # sub" and "CHR '':'' \<notin> set ns"
    and "includesToIncludedTasks s ns = Some S"
  shows "EncapsulatePassedVars X taskName taskfile c l1 l2 s =
     Inr (if sub \<in> S then connect X taskName c l1 l2 s
          else Write (quote (calledD2TaskName (TaskName c)) @ ''.icon'')
                 [''${'' @ unknownTaskIconName @ ''}'']
                 ((connect X taskName c l1 l2 s)\<lparr>includesToIncludedTasks :=
                    (includesToIncludedTasks s)(ns \<mapsto> insert sub S)\<rparr>))"
  using assms by (simp add: EncapsulatePassedVars_def Let_def SplitN2_namespaced)

lemma EncapsulatePassedVars_cases:
  assumes "EncapsulatePassedVars X taskName taskfile c l1 l2 s = Inr s'"
  obtains (flat) "CHR '':'' \<notin> set (TaskName c)"
  | (namespaced) ns sub S where "TaskName c = ns @ CHR '':'' # sub" "CHR '':'' \<notin> set ns"
      "includesToIncludedTasks s ns = Some S"
proof (cases "CHR '':'' \<in> set (TaskName c)")
  case False
  then show ?thesis by (rule flat)
next
  case True
  define ns where "ns = fst (SplitN2 (TaskName c))"
  define sub where "sub = snd (SplitN2 (TaskName c))"
  have n: "TaskName c = ns @ CHR '':'' # sub" "CHR '':'' \<notin> set ns"
    using SplitN2_colon [OF True] by (simp_all add: ns_def sub_def)
  have "includesToIncludedTasks s ns \<noteq> None"
    using assms EncapsulatePassedVars_nil_map [OF n, of s X taskName taskfile l1 l2] by auto
  then obtain S where "includesToIncludedTasks s ns = Some S" by auto
  with n show ?thesis by (rule namespaced)
qed

subsection \<open>One call\<close>

lemma annotations_call_other:
  assumes "EncapsulatePassedVars X taskName taskfile c l1 l2 s = Inr s'"
    and "plainEnding l1" and "plainEnding l2"
    and "calledD2TaskName (TaskName c) \<noteq> d"
  shows "annotations d s' = annotations d s"
  using assms(1)
proof (cases rule: EncapsulatePassedVars_cases)
  case flat
  then show ?thesis
    using assms EncapsulatePassedVars_flat [OF flat, of X taskName taskfile l1 l2 s]
    by (auto simp: annotations_Write_icon calledD2TaskName_flat split: if_splits)
next
  case (namespaced ns sub S)
  then show ?thesis
    using assms EncapsulatePassedVars_namespaced [OF namespaced, of X taskName taskfile l1 l2]
    by (auto simp: annotations_Write_icon split: if_splits)
qed

lemma annotations_call_flat:
  assumes "EncapsulatePassedVars X taskName taskfile c l1 l2 s = Inr s'"
    and "plainEnding l1" and "plainEnding l2"
    and "CHR '':'' \<notin> set (TaskName c)" and "map_of (Tasks taskfile) (TaskName c) = None"
  shows "annotations (TaskName c) s' = annotations (TaskName c) s + 1"
  using assms EncapsulatePassedVars_flat [OF assms(4), of X taskName taskfile l1 l2 s]
  by (auto simp: annotations_Write_icon)

lemma marked_call:
  assumes "EncapsulatePassedVars X taskName taskfile c l1 l2 s = Inr s'"
    and "marked ns sub s"
  shows "marked ns sub s'"
  using assms(1)
proof (cases rule: EncapsulatePassedVars_cases)
  case flat
  then show ?thesis
    using assms EncapsulatePassedVars_flat [OF flat, of X taskName taskfile l1 l2 s]
    by (auto simp: marked_def split: if_splits)
next
  case (namespaced ns' sub' S)
  then show ?thesis
    using assms namespaced(3)
      EncapsulatePassedVars_namespaced [OF namespaced, of X taskName taskfile l1 l2]
    by (auto simp: marked_def split: if_splits option.splits)
qed

lemma call_marks:
  assumes "EncapsulatePassedVars X taskName taskfile c l1 l2 s = Inr s'"
    and "TaskName c = ns @ CHR '':'' # sub" and "CHR '':'' \<notin> set ns"
  shows "marked ns sub s'"
proof -
  have "includesToIncludedTasks s ns \<noteq> None"
    using assms EncapsulatePassedVars_nil_map [OF assms(2,3), of s X taskName taskfile l1 l2]
    by auto
  then obtain S where S: "includesToIncludedTasks s ns = Some S" by auto
  show ?thesis
    using assms(1) S EncapsulatePassedVars_namespaced [OF assms(2,3) S, of X taskName taskfile l1 l2]
    by (auto simp: marked_def split: if_splits)
qed

lemma annotatedOnce_call:
  assumes "EncapsulatePassedVars X taskName taskfile c l1 l2 s = Inr s'"
    and "plainEnding l1" and "plainEnding l2"
    and "CHR '':'' \<notin> set ns" and "annotatedOnce ns sub s"
    and "calledD2TaskName (TaskName c) = calledD2TaskName (ns @ CHR '':'' # sub)
           \<longrightarrow> TaskName c = ns @ CHR '':'' # sub"
  shows "annotatedOnce ns sub s'"
proof (cases "TaskName c = ns @ CHR '':'' # sub")
  case True
  obtain S where S: "includesToIncludedTasks s ns = Some S"
    using assms(5) by (auto simp: annotatedOnce_def)
  show ?thesis
    using assms(1,2,3,5) True
      EncapsulatePassedVars_namespaced [OF True assms(4) S, of X taskName taskfile l1 l2]
    by (auto simp: annotatedOnce_def marked_def annotations_Write_icon S split: if_splits)
next
  case False
  then have other: "calledD2TaskName (TaskName c) \<noteq> calledD2TaskName (ns @ CHR '':'' # sub)"
    using assms(6) by auto
  have a: "annotations (calledD2TaskName (ns @ CHR '':'' # sub)) s' =
      annotations (calledD2TaskName (ns @ CHR '':'' # sub)) s"
    using assms(1,2,3) other by (rule annotations_call_other)
  from assms(1) have "includesToIncludedTasks s' ns \<noteq> None \<and> marked ns sub s' = marked ns sub s"
  proof (cases rule: EncapsulatePassedVars_cases)
    case flat
    then show ?thesis
      using assms(1,5) EncapsulatePassedVars_flat [OF flat, of X taskName taskfile l1 l2 s]
      by (auto simp: annotatedOnce_def marked_def split: if_splits)
  next
    case (namespaced ns' sub' S)
    have "\<not> (ns' = ns \<and> sub' = sub)"
      using False namespaced(1) by auto
    then show ?thesis
      using assms(1,5) namespaced(3)
        EncapsulatePassedVars_namespaced [OF namespaced, of X taskName taskfile l1 l2]
      by (auto simp: annotatedOnce_def marked_def split: if_splits option.splits)
  qed
  then show ?thesis
    using a assms(5) by (simp add: annotatedOnce_def)
qed

lemma first_call:
  assumes "TaskName c = ns @ CHR '':'' # sub" and "CHR '':'' \<notin> set ns"
    and "includesToIncludedTasks s ns = Some S" and "sub \<notin> S"
  shows "\<exists>s''. EncapsulatePassedVars X taskName taskfile c l1 l2 s = Inr s'' \<and>
          data s'' = data (connect X taskName c l1 l2 s)
            @ [unknownIconStatement (calledD2TaskName (TaskName c))] \<and>
          marked ns sub s''"
proof -
  let ?s = "Write (quote (calledD2TaskName (TaskName c)) @ ''.icon'')
                 [''${'' @ unknownTaskIconName @ ''}'']
                 ((connect X taskName c l1 l2 s)\<lparr>includesToIncludedTasks :=
                    (includesToIncludedTasks s)(ns \<mapsto> insert sub S)\<rparr>)"
  have "EncapsulatePassedVars X taskName taskfile c l1 l2 s = Inr ?s"
    using assms(4) EncapsulatePassedVars_namespaced [OF assms(1,2,3), of X taskName taskfile l1 l2]
    by simp
  moreover have "data ?s = data (connect X taskName c l1 l2 s)
            @ [unknownIconStatement (calledD2TaskName (TaskName c))]"
    by (simp add: unknownIconStatement_def unknownTaskIconName_def)
  moreover have "marked ns sub ?s"
    by (simp add: marked_def)
  ultimately show ?thesis by blast
qed

lemma later_call:
  assumes "TaskName c = ns @ CHR '':'' # sub" and "CHR '':'' \<notin> set ns"
    and "marked ns sub s"
  shows "EncapsulatePassedVars X taskName taskfile c l1 l2 s = Inr (connect X taskName c l1 l2 s)"
proof -
  obtain S where S: "includesToIncludedTasks s ns = Some S" "sub \<in> S"
    using assms(3) by (auto simp: marked_def split: option.splits)
  show ?thesis
    using S(2) EncapsulatePassedVars_namespaced [OF assms(1,2) S(1), of X taskName taskfile l1 l2]
    by simp
qed

subsection \<open>The loops\<close>

lemma foldE_establish:
  assumes "foldE f xs s = Inr s'" and "x \<in> set xs"
    and "\<And>t t'. f x t = Inr t' \<Longrightarrow> K t'"
    and "\<And>y t t'. K t \<Longrightarrow> f y t = Inr t' \<Longrightarrow> K t'"
  shows "K s'"
  using assms(1,2)
proof (induction xs arbitrary: s)
  case Nil
  then show ?case by simp
next
  case (Cons y ys)
  from Cons.prems(1) obtain t where t: "f y s = Inr t" "foldE f ys t = Inr s'"
    by (auto split: sum.splits)
  show ?case
  proof (cases "y = x")
    case True
    then have "K t" using t(1) assms(3) by blast
    with t(2) show ?thesis by (rule foldE_inv) (use assms(4) in blast)
  next
    case False
    then have "x \<in> set ys" using Cons.prems(2) by simp
    with t(2) show ?thesis by (rule Cons.IH)
  qed
qed

lemma foldE_sum:
  fixes g :: "'s \<Rightarrow> nat"
  assumes "foldE f xs s = Inr s'"
    and "\<And>x t t'. x \<in> set xs \<Longrightarrow> f x t = Inr t' \<Longrightarrow> g t' = g t + w x"
  shows "g s' = g s + sum_list (map w xs)"
  using assms
proof (induction xs arbitrary: s)
  case Nil
  then show ?case by simp
next
  case (Cons y ys)
  from Cons.prems(1) obtain t where t: "f y s = Inr t" "foldE f ys t = Inr s'"
    by (auto split: sum.splits)
  have "g t = g s + w y" using Cons.prems(2) t(1) by simp
  moreover have "g s' = g t + sum_list (map w ys)"
    using t(2) Cons.prems(2) by (intro Cons.IH) auto
  ultimately show ?case by simp
qed

lemma callsOf_Inr:
  "GetDepCalls t = Inr ds \<Longrightarrow> GetCalls t = Inr cs \<Longrightarrow> callsOf t = ds @ cs"
  by (simp add: callsOf_def)

text \<open>A property of the map and of the count of an icon statement that every call of a
  task keeps is kept by the emission of the task.\<close>

lemma emitTask_inv:
  assumes "emitTask X taskfile taskName s = Inr s'" and "P s"
    and frame: "\<And>t t'. P t \<Longrightarrow> includesToIncludedTasks t' = includesToIncludedTasks t \<Longrightarrow>
           annotations d t' = annotations d t \<Longrightarrow> P t'"
    and step: "\<And>c l1 l2 t t'. c \<in> set (callsOf (taskOf taskfile taskName)) \<Longrightarrow>
           plainEnding l1 \<Longrightarrow> plainEnding l2 \<Longrightarrow> P t \<Longrightarrow>
           EncapsulatePassedVars X taskName taskfile c l1 l2 t = Inr t' \<Longrightarrow> P t'"
  shows "P s'"
proof -
  let ?t = "taskOf taskfile taskName"
  from emitTask_Inr [OF assms(1)] obtain rs ds cs s2 where
    g: "GetDepCalls ?t = Inr ds" "GetCalls ?t = Inr cs"
    and d: "foldE (\<lambda>c. EncapsulatePassedVars X taskName taskfile c ''calls as dependency''
         ''passed to {style {stroke-dash: 3; stroke: green}}'') ds
       (foldl (emitRequiredVar taskName) (emitTaskNode taskName ?t s) rs) = Inr s2"
    and c: "foldE (\<lambda>(k, c). EncapsulatePassedVars X taskName taskfile c
         (''calls ('' @ decimal k @ '')'') ''passed to {style.stroke-dash: 3}'')
       (numbered 0 cs) s2 = Inr s'"
    by blast
  have all: "callsOf ?t = ds @ cs" using g by (rule callsOf_Inr)
  have "P (foldl (emitRequiredVar taskName) (emitTaskNode taskName ?t s) rs)"
    using assms(2) by (rule frame) simp_all
  with d have "P s2"
  proof (rule foldE_inv)
    fix c t t'
    assume "c \<in> set ds" and p: "P t"
      and e: "EncapsulatePassedVars X taskName taskfile c ''calls as dependency''
         ''passed to {style {stroke-dash: 3; stroke: green}}'' t = Inr t'"
    then have "c \<in> set (callsOf (taskOf taskfile taskName))" by (simp add: all)
    then show "P t'"
      using plainEnding_labels(1) plainEnding_labels(2) p e by (rule step)
  qed
  with c show ?thesis
  proof (rule foldE_inv)
    fix x t t'
    assume x: "x \<in> set (numbered 0 cs)" and "P t"
      and "(case x of (k, c) \<Rightarrow> EncapsulatePassedVars X taskName taskfile c
         (''calls ('' @ decimal k @ '')'') ''passed to {style.stroke-dash: 3}'') t = Inr t'"
    moreover obtain k c where kc: "x = (k, c)" by (cases x)
    ultimately have e: "EncapsulatePassedVars X taskName taskfile c
         (''calls ('' @ decimal k @ '')'') ''passed to {style.stroke-dash: 3}'' t = Inr t'"
      and p: "P t" by simp_all
    have "c \<in> set cs" using x kc numbered_in [of k c 0 cs] by simp
    then have "c \<in> set (callsOf (taskOf taskfile taskName))" by (simp add: all)
    then show "P t'"
      using plainEnding_labels(3) plainEnding_labels(4) p e by (rule step)
  qed
qed

lemma emitTask_marks:
  assumes "emitTask X taskfile taskName s = Inr s'"
    and "c \<in> set (callsOf (taskOf taskfile taskName))"
    and "TaskName c = ns @ CHR '':'' # sub" and "CHR '':'' \<notin> set ns"
  shows "marked ns sub s'"
proof -
  let ?t = "taskOf taskfile taskName"
  let ?dep = "\<lambda>c. EncapsulatePassedVars X taskName taskfile c ''calls as dependency''
         ''passed to {style {stroke-dash: 3; stroke: green}}''"
  let ?call = "\<lambda>(k, c). EncapsulatePassedVars X taskName taskfile c
         (''calls ('' @ decimal k @ '')'') ''passed to {style.stroke-dash: 3}''"
  from emitTask_Inr [OF assms(1)] obtain rs ds cs s2 where
    g: "GetDepCalls ?t = Inr ds" "GetCalls ?t = Inr cs"
    and d: "foldE ?dep ds
       (foldl (emitRequiredVar taskName) (emitTaskNode taskName ?t s) rs) = Inr s2"
    and i: "foldE ?call (numbered 0 cs) s2 = Inr s'"
    by blast
  have keep_dep: "marked ns sub t'" if "marked ns sub t" "?dep y t = Inr t'" for y t t'
    using that(2,1) by (rule marked_call)
  have keep_call: "marked ns sub t'" if "marked ns sub t" "?call y t = Inr t'" for y t t'
  proof -
    obtain k c' where "y = (k, c')" by (cases y)
    with that(2) have "EncapsulatePassedVars X taskName taskfile c'
         (''calls ('' @ decimal k @ '')'') ''passed to {style.stroke-dash: 3}'' t = Inr t'"
      by simp
    then show ?thesis using that(1) by (rule marked_call)
  qed
  have "c \<in> set ds \<or> c \<in> set cs"
    using assms(2) callsOf_Inr [OF g] by simp
  then show ?thesis
  proof
    assume "c \<in> set ds"
    with d have "marked ns sub s2"
    proof (rule foldE_establish)
      show "marked ns sub t'" if "?dep c t = Inr t'" for t t'
        using that assms(3,4) by (rule call_marks)
    qed (rule keep_dep)
    with i show ?thesis
      by (rule foldE_inv) (rule keep_call)
  next
    assume "c \<in> set cs"
    then obtain k where "(k, c) \<in> set (numbered 0 cs)"
      using in_numbered [of c cs 0] by auto
    with i show ?thesis
    proof (rule foldE_establish)
      show "marked ns sub t'" if "?call (k, c) t = Inr t'" for t t'
      proof -
        from that have "EncapsulatePassedVars X taskName taskfile c
           (''calls ('' @ decimal k @ '')'') ''passed to {style.stroke-dash: 3}'' t = Inr t'"
          by simp
        then show ?thesis using assms(3,4) by (rule call_marks)
      qed
    qed (rule keep_call)
  qed
qed

lemma count_list_sum:
  "count_list (map TaskName cs) n = sum_list (map (\<lambda>c. if TaskName c = n then 1 else 0) cs)"
  by (induction cs) simp_all

lemma sum_numbered:
  "sum_list (map (\<lambda>x. w (snd x)) (numbered k cs)) = sum_list (map w cs)"
  by (induction cs arbitrary: k) (simp_all add: Let_def)

lemma emitTask_count:
  assumes "emitTask X taskfile taskName s = Inr s'"
    and step: "\<And>c l1 l2 t t'. c \<in> set (callsOf (taskOf taskfile taskName)) \<Longrightarrow>
           plainEnding l1 \<Longrightarrow> plainEnding l2 \<Longrightarrow>
           EncapsulatePassedVars X taskName taskfile c l1 l2 t = Inr t' \<Longrightarrow>
           annotations d t' = annotations d t + (if TaskName c = n then 1 else 0)"
  shows "annotations d s' =
     annotations d s + count_list (map TaskName (callsOf (taskOf taskfile taskName))) n"
proof -
  let ?t = "taskOf taskfile taskName"
  let ?w = "\<lambda>c. if TaskName c = n then 1 else 0 :: nat"
  from emitTask_Inr [OF assms(1)] obtain rs ds cs s2 where
    g: "GetDepCalls ?t = Inr ds" "GetCalls ?t = Inr cs"
    and d: "foldE (\<lambda>c. EncapsulatePassedVars X taskName taskfile c ''calls as dependency''
         ''passed to {style {stroke-dash: 3; stroke: green}}'') ds
       (foldl (emitRequiredVar taskName) (emitTaskNode taskName ?t s) rs) = Inr s2"
    and i: "foldE (\<lambda>(k, c). EncapsulatePassedVars X taskName taskfile c
         (''calls ('' @ decimal k @ '')'') ''passed to {style.stroke-dash: 3}'')
       (numbered 0 cs) s2 = Inr s'"
    by blast
  have all: "callsOf ?t = ds @ cs" using g by (rule callsOf_Inr)
  have "annotations d s2 =
      annotations d (foldl (emitRequiredVar taskName) (emitTaskNode taskName ?t s) rs)
      + sum_list (map ?w ds)"
    using d
  proof (rule foldE_sum)
    fix c t t'
    assume "c \<in> set ds"
      and e: "EncapsulatePassedVars X taskName taskfile c ''calls as dependency''
         ''passed to {style {stroke-dash: 3; stroke: green}}'' t = Inr t'"
    then have "c \<in> set (callsOf (taskOf taskfile taskName))" by (simp add: all)
    then show "annotations d t' = annotations d t + ?w c"
      using plainEnding_labels(1) plainEnding_labels(2) e by (rule step)
  qed
  moreover have "annotations d s' = annotations d s2 + sum_list (map (\<lambda>x. ?w (snd x)) (numbered 0 cs))"
    using i
  proof (rule foldE_sum)
    fix x t t'
    assume x: "x \<in> set (numbered 0 cs)"
      and "(case x of (k, c) \<Rightarrow> EncapsulatePassedVars X taskName taskfile c
         (''calls ('' @ decimal k @ '')'') ''passed to {style.stroke-dash: 3}'') t = Inr t'"
    moreover obtain k c where kc: "x = (k, c)" by (cases x)
    ultimately have e: "EncapsulatePassedVars X taskName taskfile c
         (''calls ('' @ decimal k @ '')'') ''passed to {style.stroke-dash: 3}'' t = Inr t'"
      by simp
    have "c \<in> set cs" using x kc numbered_in [of k c 0 cs] by simp
    then have "c \<in> set (callsOf (taskOf taskfile taskName))" by (simp add: all)
    then have "annotations d t' = annotations d t + ?w c"
      using plainEnding_labels(3) plainEnding_labels(4) e by (rule step)
    then show "annotations d t' = annotations d t + ?w (snd x)"
      by (simp add: kc)
  qed
  ultimately show ?thesis
    using sum_numbered [of ?w 0 cs] by (simp add: all count_list_sum)
qed

subsection \<open>The whole run\<close>

lemma plainEnding_d2Vars: "plainEnding d2Vars"
  unfolding d2Vars_def by (intro plainEnding_append) (simp add: plainEnding_def)

lemma plainEnding_legend: "plainEnding legend"
  unfolding legend_def by (intro plainEnding_append) (simp add: plainEnding_def)

lemma annotations_emitLegend [simp]: "annotations d (emitLegend X p) = 0"
proof -
  have "annotations d (p\<lparr>data := []\<rparr>) = 0" by (simp add: annotations_def)
  then show ?thesis
    by (simp add: emitLegend_def Let_def annotations_Write_plainEnding plainEnding_d2Vars
        plainEnding_legend)
qed

lemma translate_Inr:
  assumes "translate X taskfile p = Inr s'"
  shows "\<exists>s1. foldE (emitTask X taskfile) (sortedKeys (Tasks taskfile))
           (foldl emitInclude (emitLegend X p) (GetIncludes taskfile)) = Inr s1 \<and>
         s' = styles s1"
  using assms by (auto simp: translate_def Let_def split: if_splits sum.splits)

lemma allCalls_I:
  "n \<in> set (sortedKeys (Tasks taskfile)) \<Longrightarrow> c \<in> set (callsOf (taskOf taskfile n)) \<Longrightarrow>
     c \<in> set (allCalls taskfile)"
  by (auto simp: allCalls_def)

lemma count_allCalls:
  "count_list (map TaskName (allCalls taskfile)) n =
     sum_list (map (\<lambda>k. count_list (map TaskName (callsOf (taskOf taskfile k))) n)
       (sortedKeys (Tasks taskfile)))"
proof -
  have "count_list (map TaskName (concat xss)) n =
      sum_list (map (\<lambda>xs. count_list (map TaskName xs) n) xss)" for xss
    by (induction xss) (simp_all add: count_list_append)
  from this [of "map (\<lambda>k. callsOf (taskOf taskfile k)) (sortedKeys (Tasks taskfile))"]
  show ?thesis by (simp add: allCalls_def comp_def)
qed

text \<open>
  C4. In a run that returns, take a pair of a declared namespace \<open>ns\<close> and a task
  \<open>sub\<close> that some call of the document targets as \<open>ns:sub\<close>, no other call target of
  the document being written as the same node. Then the statement that puts the
  unknown-task icon on that node stands exactly once among the statements of the run.
  It is the first call of the pair that writes it: a call of the pair, from any task,
  that finds the pair unmarked under its namespace writes the statement after its edges
  and marks the pair; one that finds the pair marked writes its edges and nothing else.
\<close>

theorem C4_annotated_once:
  assumes "TaskfileToD2 X taskfile p = Inr (text, s')"
    and "ns \<in> set (GetIncludes taskfile)" and "CHR '':'' \<notin> set ns"
    and "c \<in> set (allCalls taskfile)" and "TaskName c = ns @ CHR '':'' # sub"
    and "\<forall>c' \<in> set (allCalls taskfile).
           calledD2TaskName (TaskName c') = calledD2TaskName (TaskName c) \<longrightarrow>
           TaskName c' = TaskName c"
  shows "annotations (calledD2TaskName (TaskName c)) s' = 1 \<and>
    (\<forall>taskName l1 l2 s S. includesToIncludedTasks s ns = Some S \<and> sub \<notin> S \<longrightarrow>
       (\<exists>s''. EncapsulatePassedVars X taskName taskfile c l1 l2 s = Inr s'' \<and>
          data s'' = data (connect X taskName c l1 l2 s)
            @ [unknownIconStatement (calledD2TaskName (TaskName c))] \<and>
          marked ns sub s'')) \<and>
    (\<forall>taskName l1 l2 s. marked ns sub s \<longrightarrow>
       EncapsulatePassedVars X taskName taskfile c l1 l2 s = Inr (connect X taskName c l1 l2 s))"
proof (intro conjI allI impI)
  let ?d = "calledD2TaskName (ns @ CHR '':'' # sub)"
  from assms(1) have "translate X taskfile p = Inr s'"
    by (auto simp: TaskfileToD2_def split: sum.splits)
  then obtain s1 where
    run: "foldE (emitTask X taskfile) (sortedKeys (Tasks taskfile))
           (foldl emitInclude (emitLegend X p) (GetIncludes taskfile)) = Inr s1"
    and s': "s' = styles s1"
    using translate_Inr by blast
  let ?s0 = "foldl emitInclude (emitLegend X p) (GetIncludes taskfile)"
  have start: "annotatedOnce ns sub ?s0"
    using assms(2) by (simp add: annotatedOnce_def marked_def emitIncludes_map)
  have once: "annotatedOnce ns sub s1"
    using run start
  proof (rule foldE_inv)
    fix n t t'
    assume n: "n \<in> set (sortedKeys (Tasks taskfile))" and t: "annotatedOnce ns sub t"
      and e: "emitTask X taskfile n t = Inr t'"
    from e t show "annotatedOnce ns sub t'"
    proof (rule emitTask_inv [where d = ?d])
      show "annotatedOnce ns sub u'"
        if "annotatedOnce ns sub u" "includesToIncludedTasks u' = includesToIncludedTasks u"
          "annotations ?d u' = annotations ?d u" for u u'
        using that by (simp add: annotatedOnce_def marked_def)
      show "annotatedOnce ns sub u'"
        if c': "c' \<in> set (callsOf (taskOf taskfile n))" and l: "plainEnding l1" "plainEnding l2"
          and u: "annotatedOnce ns sub u"
          and e': "EncapsulatePassedVars X n taskfile c' l1 l2 u = Inr u'" for c' l1 l2 u u'
      proof -
        have "c' \<in> set (allCalls taskfile)" using n c' by (rule allCalls_I)
        then have "calledD2TaskName (TaskName c') = ?d \<longrightarrow> TaskName c' = ns @ CHR '':'' # sub"
          using assms(5,6) by auto
        with e' l assms(3) u show ?thesis by (rule annotatedOnce_call)
      qed
    qed
  qed
  obtain n where n: "n \<in> set (sortedKeys (Tasks taskfile))"
    and cn: "c \<in> set (callsOf (taskOf taskfile n))"
    using assms(4) by (auto simp: allCalls_def)
  have keep: "marked ns sub t'" if "marked ns sub t" "emitTask X taskfile k t = Inr t'" for k t t'
    using that(2,1)
  proof (rule emitTask_inv [where d = ?d])
    show "marked ns sub u'"
      if "marked ns sub u" "includesToIncludedTasks u' = includesToIncludedTasks u" for u u'
      using that by (simp add: marked_def)
    show "marked ns sub u'"
      if "marked ns sub u" "EncapsulatePassedVars X k taskfile c' l1 l2 u = Inr u'"
      for c' l1 l2 u u'
      using that(2,1) by (rule marked_call)
  qed
  have "marked ns sub s1"
    using run n
  proof (rule foldE_establish)
    show "marked ns sub t'" if "emitTask X taskfile n t = Inr t'" for t t'
      using that cn assms(5,3) by (rule emitTask_marks)
  qed (rule keep)
  with once have "annotations ?d s1 = 1"
    by (simp add: annotatedOnce_def)
  then show "annotations (calledD2TaskName (TaskName c)) s' = 1"
    by (simp add: s' assms(5))
next
  fix taskName l1 l2 S and s :: state
  assume "includesToIncludedTasks s ns = Some S \<and> sub \<notin> S"
  then have "includesToIncludedTasks s ns = Some S" and "sub \<notin> S" by auto
  with assms(5,3)
  show "\<exists>s''. EncapsulatePassedVars X taskName taskfile c l1 l2 s = Inr s'' \<and>
          data s'' = data (connect X taskName c l1 l2 s)
            @ [unknownIconStatement (calledD2TaskName (TaskName c))] \<and>
          marked ns sub s''"
    by (rule first_call)
next
  fix taskName l1 l2 and s :: state
  assume "marked ns sub s"
  with assms(5,3)
  show "EncapsulatePassedVars X taskName taskfile c l1 l2 s =
      Inr (connect X taskName c l1 l2 s)"
    by (rule later_call)
qed

theorem C4_annotated_once_witness:
  "\<not> isl (TaskfileToD2 exampleExt sameTarget freshProcess) \<and>
   ''infra'' \<in> set (GetIncludes sameTarget) \<and>
   map TaskName (allCalls sameTarget) =
     [''infra:provision'', ''infra:provision'', ''infra:provision''] \<and>
   annotations (calledD2TaskName ''infra:provision'')
     (snd (projr (TaskfileToD2 exampleExt sameTarget freshProcess))) = 1"
proof -
  let ?r = "TaskfileToD2 exampleExt sameTarget freshProcess"
  let ?c = "\<lparr>TaskName = ''infra:provision'', CallVars = []\<rparr>"
  have a: "\<not> isl ?r"
    by (simp add: run_simps example_simps sameTarget_def)
  then have r: "?r = Inr (fst (projr ?r), snd (projr ?r))" by simp
  have i: "''infra'' \<in> set (GetIncludes sameTarget)"
    by (simp add: GetIncludes_def keys_def sameTarget_def emptyTaskfile_def)
  have n: "CHR '':'' \<notin> set ''infra''" by simp
  have all: "allCalls sameTarget = [?c, ?c, ?c]"
    by (simp add: allCalls_def callsOf_def run_simps sameTarget_def emptyTaskfile_def
        zeroTask_def)
  have c: "?c \<in> set (allCalls sameTarget)" by (simp add: all)
  have t: "TaskName ?c = ''infra'' @ CHR '':'' # ''provision''" by simp
  have h: "\<forall>c' \<in> set (allCalls sameTarget).
      calledD2TaskName (TaskName c') = calledD2TaskName (TaskName ?c) \<longrightarrow>
      TaskName c' = TaskName ?c"
    by (simp add: all)
  show ?thesis
    using a i C4_annotated_once [OF r i n c t h] by (simp add: all)
qed

text \<open>
  C5. Let \<open>n\<close> be a name without namespace separator that is not a key of the task
  mapping. Every call whose target is \<open>n\<close> returns, writes the statement of the
  unknown-task icon of \<open>n\<close> after its edges, and leaves the package-level map as it
  was, whatever the map holds: nothing is remembered. So in a run that returns the
  statement stands as many times among the statements of the run as the document has
  calls of \<open>n\<close>, no call of another target being written as the node \<open>n\<close>.
\<close>

theorem C5_unknown_every_time:
  assumes "CHR '':'' \<notin> set n" and "map_of (Tasks taskfile) n = None"
  shows "(\<forall>c taskName l1 l2 s. TaskName c = n \<longrightarrow>
       (\<exists>s'. EncapsulatePassedVars X taskName taskfile c l1 l2 s = Inr s' \<and>
          data s' = data (connect X taskName c l1 l2 s) @ [unknownIconStatement n] \<and>
          includesToIncludedTasks s' = includesToIncludedTasks s)) \<and>
    (TaskfileToD2 X taskfile p = Inr (text, s') \<and>
     (\<forall>c \<in> set (allCalls taskfile). calledD2TaskName (TaskName c) = n \<longrightarrow> TaskName c = n)
       \<longrightarrow> annotations n s' = count_list (map TaskName (allCalls taskfile)) n)"
proof (intro conjI allI impI)
  fix taskName l1 l2 and c :: TaskCall and s :: state
  assume c: "TaskName c = n"
  let ?s = "Write (quote n @ ''.icon'') [''${'' @ unknownTaskIconName @ ''}'']
              (connect X taskName c l1 l2 s)"
  have "EncapsulatePassedVars X taskName taskfile c l1 l2 s = Inr ?s"
    using assms c EncapsulatePassedVars_flat [of c X taskName taskfile l1 l2 s] by simp
  moreover have "data ?s = data (connect X taskName c l1 l2 s) @ [unknownIconStatement n]"
    by (simp add: unknownIconStatement_def unknownTaskIconName_def)
  moreover have "includesToIncludedTasks ?s = includesToIncludedTasks s" by simp
  ultimately show "\<exists>s'. EncapsulatePassedVars X taskName taskfile c l1 l2 s = Inr s' \<and>
          data s' = data (connect X taskName c l1 l2 s) @ [unknownIconStatement n] \<and>
          includesToIncludedTasks s' = includesToIncludedTasks s"
    by blast
next
  assume a: "TaskfileToD2 X taskfile p = Inr (text, s') \<and>
     (\<forall>c \<in> set (allCalls taskfile). calledD2TaskName (TaskName c) = n \<longrightarrow> TaskName c = n)"
  then have "translate X taskfile p = Inr s'"
    by (auto simp: TaskfileToD2_def split: sum.splits)
  then obtain s1 where
    run: "foldE (emitTask X taskfile) (sortedKeys (Tasks taskfile))
           (foldl emitInclude (emitLegend X p) (GetIncludes taskfile)) = Inr s1"
    and s': "s' = styles s1"
    using translate_Inr by blast
  let ?w = "\<lambda>k. count_list (map TaskName (callsOf (taskOf taskfile k))) n"
  have "annotations n s1 =
      annotations n (foldl emitInclude (emitLegend X p) (GetIncludes taskfile))
      + sum_list (map ?w (sortedKeys (Tasks taskfile)))"
    using run
  proof (rule foldE_sum)
    fix k t t'
    assume k: "k \<in> set (sortedKeys (Tasks taskfile))"
      and t: "emitTask X taskfile k t = Inr t'"
    from t show "annotations n t' = annotations n t + ?w k"
    proof (rule emitTask_count)
      fix c l1 l2 u u'
      assume c: "c \<in> set (callsOf (taskOf taskfile k))"
        and l: "plainEnding l1" "plainEnding l2"
        and e: "EncapsulatePassedVars X k taskfile c l1 l2 u = Inr u'"
      show "annotations n u' = annotations n u + (if TaskName c = n then 1 else 0)"
      proof (cases "TaskName c = n")
        case True
        then show ?thesis
          using annotations_call_flat [OF e l] assms by simp
      next
        case False
        have "c \<in> set (allCalls taskfile)" using k c by (rule allCalls_I)
        then have "calledD2TaskName (TaskName c) \<noteq> n" using a False by auto
        with e l have "annotations n u' = annotations n u" by (rule annotations_call_other)
        then show ?thesis using False by simp
      qed
    qed
  qed
  then show "annotations n s' = count_list (map TaskName (allCalls taskfile)) n"
    by (simp add: s' count_allCalls)
qed

theorem C5_unknown_every_time_witness:
  "CHR '':'' \<notin> set ''nope'' \<and> map_of (Tasks unknownCalls) ''nope'' = None \<and>
   \<not> isl (TaskfileToD2 exampleExt unknownCalls freshProcess) \<and>
   map TaskName (allCalls unknownCalls) = [''nope'', ''nope'', ''nope''] \<and>
   annotations ''nope'' (snd (projr (TaskfileToD2 exampleExt unknownCalls freshProcess))) = 3"
proof -
  let ?r = "TaskfileToD2 exampleExt unknownCalls freshProcess"
  let ?c = "\<lparr>TaskName = ''nope'', CallVars = []\<rparr>"
  have a: "\<not> isl ?r"
    by (simp add: run_simps example_simps unknownCalls_def)
  then have r: "?r = Inr (fst (projr ?r), snd (projr ?r))" by simp
  have n: "CHR '':'' \<notin> set ''nope''" by simp
  have u: "map_of (Tasks unknownCalls) ''nope'' = None"
    by (simp add: unknownCalls_def emptyTaskfile_def)
  have all: "allCalls unknownCalls = [?c, ?c, ?c]"
    by (simp add: allCalls_def callsOf_def run_simps unknownCalls_def emptyTaskfile_def
        zeroTask_def)
  have h: "\<forall>c \<in> set (allCalls unknownCalls).
      calledD2TaskName (TaskName c) = ''nope'' \<longrightarrow> TaskName c = ''nope''"
    by (simp add: all)
  show ?thesis
    using a n u
      C5_unknown_every_time [OF n u, of exampleExt freshProcess "fst (projr ?r)" "snd (projr ?r)"]
      r h
    by (simp add: all)
qed

end
